theory Spec2Isabelle
  imports Main "HOL-Library.Sublist"
begin

section \<open>The token model\<close>

text \<open>
  The adapter of \<^verbatim>\<open>lib/wt2html/HTML5TreeBuilder.js\<close> dispatches on the constructor of the
  token it is given: a JavaScript string, \<^verbatim>\<open>NlTk\<close>, \<^verbatim>\<open>TagTk\<close>, \<^verbatim>\<open>SelfclosingTagTk\<close>,
  \<^verbatim>\<open>EndTagTk\<close>, \<^verbatim>\<open>CommentTk\<close>, \<^verbatim>\<open>EOFTk\<close>, or anything else (the \<^verbatim>\<open>default\<close> branch).
  A tag token has a name, an attribute list \<^verbatim>\<open>attribs\<close> of \<^verbatim>\<open>{k, v}\<close> pairs and a metadata
  object \<^verbatim>\<open>dataAttribs\<close>; both may be missing, which is why \<^verbatim>\<open>processToken\<close> reads
  them with \<^verbatim>\<open>||\<close>. The fields of \<^verbatim>\<open>dataAttribs\<close> the adapter touches are \<^verbatim>\<open>tmp\<close>
  (with \<^verbatim>\<open>tmp.inTransclusion\<close> and \<^verbatim>\<open>tmp.tagId\<close>), \<^verbatim>\<open>tsr\<close>, \<^verbatim>\<open>endpos\<close>, \<^verbatim>\<open>stx\<close>,
  \<^verbatim>\<open>autoInsertedEnd\<close> and \<^verbatim>\<open>tokens\<close>; every other entry is carried along in \<open>rest\<close>.

  An attribute value is a string, a list of tokens (the \<^verbatim>\<open>content\<close> of a packed
  \<^verbatim>\<open>pre\<close>), or the string \<^verbatim>\<open>JSON.stringify(dataAttribs)\<close>, which is kept symbolic as
  \<open>JSON_stringify d\<close>. A source position is a number or \<^verbatim>\<open>undefined\<close> (\<open>None\<close>).
  The per-parse counters are JavaScript numbers holding integers; they are \<open>int\<close> here
  (exact for every count below \<open>2 ^ 53\<close>).
\<close>

record tmp_bag =
  tmpInTransclusion :: bool
  tmpTagId :: "int option"

datatype token =
    StringTk string
  | NlTk
  | TagTk string "(string \<times> attr_value) list" "data_attribs option"
  | SelfclosingTagTk string "(string \<times> attr_value) list" "data_attribs option"
  | EndTagTk string "(string \<times> attr_value) list" "data_attribs option"
  | CommentTk string
  | EOFTk
  | OtherTk string
and attr_value =
    Str string
  | Toks "token list"
  | JSON_stringify data_attribs
and data_attribs =
  DataAttribs
    (tmp: "tmp_bag option")
    (tsr: "(int option \<times> int option) option")
    (endpos: "int option")
    (stx: "string option")
    (autoInsertedEnd: bool)
    (tokens: "token list option")
    (rest: "(string \<times> string) list")

type_synonym attribs = "(string \<times> attr_value) list"

text \<open>The object literal \<^verbatim>\<open>{}\<close> and the field writes of the source.\<close>

definition emptyTmp :: tmp_bag where
  "emptyTmp = \<lparr>tmpInTransclusion = False, tmpTagId = None\<rparr>"

definition emptyDataAttribs :: data_attribs where
  "emptyDataAttribs = DataAttribs None None None None False None []"

definition set_tmp :: "tmp_bag \<Rightarrow> data_attribs \<Rightarrow> data_attribs" where
  "set_tmp t d = DataAttribs (Some t) (tsr d) (endpos d) (stx d) (autoInsertedEnd d) (tokens d) (rest d)"

definition set_tsr :: "(int option \<times> int option) option \<Rightarrow> data_attribs \<Rightarrow> data_attribs" where
  "set_tsr r d = DataAttribs (tmp d) r (endpos d) (stx d) (autoInsertedEnd d) (tokens d) (rest d)"

definition set_endpos :: "int option \<Rightarrow> data_attribs \<Rightarrow> data_attribs" where
  "set_endpos p d = DataAttribs (tmp d) (tsr d) p (stx d) (autoInsertedEnd d) (tokens d) (rest d)"

definition set_stx :: "string option \<Rightarrow> data_attribs \<Rightarrow> data_attribs" where
  "set_stx x d = DataAttribs (tmp d) (tsr d) (endpos d) x (autoInsertedEnd d) (tokens d) (rest d)"

text \<open>\<^verbatim>\<open>token.attribs\<close> and \<^verbatim>\<open>token.dataAttribs\<close> (a string and the tokens without
  these fields give \<^verbatim>\<open>undefined\<close>), and the tests on \<^verbatim>\<open>token.constructor\<close>.\<close>

fun tokenAttribs :: "token \<Rightarrow> attribs option" where
  "tokenAttribs (TagTk n a d) = Some a"
| "tokenAttribs (SelfclosingTagTk n a d) = Some a"
| "tokenAttribs (EndTagTk n a d) = Some a"
| "tokenAttribs t = None"

fun tokenDataAttribs :: "token \<Rightarrow> data_attribs option" where
  "tokenDataAttribs (TagTk n a d) = d"
| "tokenDataAttribs (SelfclosingTagTk n a d) = d"
| "tokenDataAttribs (EndTagTk n a d) = d"
| "tokenDataAttribs t = None"

fun isTagTk :: "token \<Rightarrow> bool" where
  "isTagTk (TagTk n a d) = True"
| "isTagTk t = False"

fun isSelfclosingTagTk :: "token \<Rightarrow> bool" where
  "isSelfclosingTagTk (SelfclosingTagTk n a d) = True"
| "isSelfclosingTagTk t = False"

fun isString :: "token \<Rightarrow> bool" where
  "isString (StringTk x) = True"
| "isString t = False"

section \<open>Commands to the tree builder\<close>

text \<open>
  \<^verbatim>\<open>this.emit('token', ...)\<close> hands an object to the tree builder of the \<^verbatim>\<open>html5\<close>
  module, synchronously. The objects are \<^verbatim>\<open>{type: 'Characters', data}\<close>,
  \<^verbatim>\<open>{type: 'StartTag', name, data}\<close> with an optional \<^verbatim>\<open>self_closing: true\<close>,
  \<^verbatim>\<open>{type: 'EndTag', name}\<close> with an optional \<^verbatim>\<open>data\<close>, \<^verbatim>\<open>{type: 'Comment', data}\<close> and
  \<^verbatim>\<open>{type: 'EOF'}\<close>. The text of a comment is either the value of a \<^verbatim>\<open>CommentTk\<close> or
  \<^verbatim>\<open>JSON.stringify({'@type': ty, attrs: as})\<close>, kept symbolic as \<open>JSON_object ty as\<close>.
  The tree builder is an external module: it is taken to accept every command, and what
  it builds from the commands is not modelled.
\<close>

record dom_attr =
  nodeName :: string
  nodeValue :: attr_value
  namespaceURI :: "string option"

datatype comment_data =
    Literal string
  | JSON_object string "dom_attr list"

datatype command =
    Characters string
  | StartTag string bool "dom_attr list"
  | EndTag string "dom_attr list option"
  | Comment comment_data
  | EOF

definition plainAttr :: "string \<Rightarrow> attr_value \<Rightarrow> dom_attr" where
  "plainAttr n v = \<lparr>nodeName = n, nodeValue = v, namespaceURI = None\<rparr>"

section \<open>Collaborators that are not part of the adapter\<close>

text \<open>
  \<^verbatim>\<open>token.getAttribute\<close> (of \<^verbatim>\<open>parser.defines.js\<close>), \<^verbatim>\<open>Util.isEmptyLineMetaToken\<close>,
  \<^verbatim>\<open>Util.isVoidElement\<close> and \<^verbatim>\<open>SanitizerConstants.XMLNS_ATTRIBUTE_RE\<close> are defined in other
  modules. The adapter is modelled for any choice of them; \<open>getAttribute\<close> gives
  \<open>None\<close> for \<^verbatim>\<open>null\<close> and is taken to return strings for \<^verbatim>\<open>property\<close> and \<^verbatim>\<open>typeof\<close>.
\<close>

record env =
  getAttribute :: "token \<Rightarrow> string \<Rightarrow> string option"
  isEmptyLineMetaToken :: "token \<Rightarrow> bool"
  isVoidElement :: "string \<Rightarrow> bool"
  XMLNS_ATTRIBUTE_RE :: "string \<Rightarrow> bool"

section \<open>The adapter state\<close>

text \<open>
  The fields of \<^verbatim>\<open>TreeBuilder\<close>. \<^verbatim>\<open>resetState\<close> writes \<^verbatim>\<open>precededByPre\<close> while
  \<^verbatim>\<open>processToken\<close> reads and writes \<^verbatim>\<open>preceededByPre\<close>: these are two fields.
  \<open>emitted\<close> is the sequence of commands the tree builder has received for the current
  document. \<open>traceLog\<close> is the \<^verbatim>\<open>trace/html\<close> log of line 163 for the current parse: one
  entry per call of \<^verbatim>\<open>processToken\<close>, in the order the calls begin, holding the token
  and the metadata object as it is after lines 143 to 156 (the token's own object,
  written in place, when the token has one). \<open>lastToken\<close> holds the token as it was
  passed; \<^verbatim>\<open>onEnd\<close> looks at its constructor only.
\<close>

record state =
  tagId :: int
  inTransclusion :: bool
  precededByPre :: bool
  preceededByPre :: bool
  tableDepth :: int
  haveTransclusionShadow :: bool
  lastToken :: "token option"
  emitted :: "command list"
  traceLog :: "(token \<times> data_attribs) list"

datatype error = TypeError

text \<open>A call either returns, or throws and leaves the fields as they were at the throw.\<close>

datatype outcome = Done state | Threw error state

definition emit :: "command \<Rightarrow> state \<Rightarrow> state" where
  "emit c s = s\<lparr>emitted := emitted s @ [c]\<rparr>"

section \<open>Strings and patterns\<close>

text \<open>The decimal text JavaScript gives an integer in \<^verbatim>\<open>tName + ":" + tagId\<close>.\<close>

fun showNat :: "nat \<Rightarrow> string" where
  "showNat n = (if n < 10 then [''0123456789'' ! n] else showNat (n div 10) @ [''0123456789'' ! (n mod 10)])"

declare showNat.simps [simp del]

definition showInt :: "int \<Rightarrow> string" where
  "showInt i = (if i < 0 then CHR ''-'' # showNat (nat (- i)) else showNat (nat i))"

text \<open>\<^verbatim>\<open>String(x)\<close> of a value that is a string or \<^verbatim>\<open>null\<close>, as \<^verbatim>\<open>RegExp.test\<close> applies it.\<close>

definition jsString :: "string option \<Rightarrow> string" where
  "jsString x = (case x of None \<Rightarrow> ''null'' | Some v \<Rightarrow> v)"

text \<open>A word character \<^verbatim>\<open>[A-Za-z0-9_]\<close>, and \<^verbatim>\<open>\b\<close> at position \<open>i\<close> of \<open>x\<close>.\<close>

definition isLetter :: "char \<Rightarrow> bool" where
  "isLetter c = (let n = (of_char c :: nat) in (65 \<le> n \<and> n \<le> 90) \<or> (97 \<le> n \<and> n \<le> 122))"

definition isWordChar :: "char \<Rightarrow> bool" where
  "isWordChar c = (let n = (of_char c :: nat) in isLetter c \<or> (48 \<le> n \<and> n \<le> 57) \<or> n = 95)"

definition wordAt :: "string \<Rightarrow> nat \<Rightarrow> bool" where
  "wordAt x i = (i < length x \<and> isWordChar (x ! i))"

definition wordBoundary :: "string \<Rightarrow> nat \<Rightarrow> bool" where
  "wordBoundary x i = ((i > 0 \<and> wordAt x (i - 1)) \<noteq> wordAt x i)"

text \<open>\<^verbatim>\<open>/^mw:(Extension\/ref\/Marker|Includes\/(OnlyInclude|IncludeOnly|NoInclude))\b/\<close>\<close>

definition fosterTypeofRE :: "string \<Rightarrow> bool" where
  "fosterTypeofRE x =
     list_ex (\<lambda>p. prefix p x \<and> wordBoundary x (length p))
       [''mw:Extension/ref/Marker'', ''mw:Includes/OnlyInclude'',
        ''mw:Includes/IncludeOnly'', ''mw:Includes/NoInclude'']"

text \<open>\<^verbatim>\<open>/^(mw:PageProp\/[a-zA-Z]*)\b/\<close>: the star may stop after any number of the leading
  letters.\<close>

definition pagePropRE :: "string \<Rightarrow> bool" where
  "pagePropRE x =
     (prefix ''mw:PageProp/'' x \<and>
      list_ex (\<lambda>k. wordBoundary x (12 + k))
        [0 ..< Suc (length (takeWhile isLetter (drop 12 x)))])"

section \<open>The adapter\<close>

text \<open>\<^verbatim>\<open>_att\<close>: the attribute objects handed to the tree builder.\<close>

definition att :: "env \<Rightarrow> attribs \<Rightarrow> dom_attr list" where
  "att env maybeAttribs =
     map (\<lambda>attr. \<lparr>nodeName = fst attr, nodeValue = snd attr,
                   namespaceURI = (if XMLNS_ATTRIBUTE_RE env (fst attr)
                                   then Some ''http://www.w3.org/2000/xmlns/'' else None)\<rparr>)
       maybeAttribs"

text \<open>A write to a field of \<^verbatim>\<open>dataAttribs.tmp\<close>; \<^verbatim>\<open>tmp\<close> exists whenever the source
  writes to it.\<close>

definition upd_tmp :: "(tmp_bag \<Rightarrow> tmp_bag) \<Rightarrow> data_attribs \<Rightarrow> data_attribs" where
  "upd_tmp f d = (case tmp d of None \<Rightarrow> d | Some t \<Rightarrow> set_tmp (f t) d)"

text \<open>
  Lines 142 to 165 of \<^verbatim>\<open>processToken\<close>: the attribute list and the metadata object of
  the token (with their defaults), the \<^verbatim>\<open>tmp\<close> entries, the tag id given to a \<^verbatim>\<open>TagTk\<close> or
  a \<^verbatim>\<open>SelfclosingTagTk\<close>, the \<^verbatim>\<open>data-parsoid\<close> attribute appended to the list, and the
  trace entry. The resource counter of line 139 belongs to the environment and decides
  nothing here.
\<close>

definition prepare :: "state \<Rightarrow> token \<Rightarrow> attribs \<times> data_attribs \<times> state" where
  "prepare s token =
     (let attribs = (case tokenAttribs token of None \<Rightarrow> [] | Some a \<Rightarrow> a);
          d0 = (case tokenDataAttribs token of None \<Rightarrow> set_tmp emptyTmp emptyDataAttribs | Some d \<Rightarrow> d);
          d1 = (case tmp d0 of None \<Rightarrow> set_tmp emptyTmp d0 | Some t \<Rightarrow> d0);
          d2 = (if inTransclusion s then upd_tmp (\<lambda>t. t\<lparr>tmpInTransclusion := True\<rparr>) d1 else d1);
          assign = (isTagTk token \<or> isSelfclosingTagTk token);
          d3 = (if assign then upd_tmp (\<lambda>t. t\<lparr>tmpTagId := Some (tagId s)\<rparr>) d2 else d2);
          s1 = (if assign then s\<lparr>tagId := tagId s + 1\<rparr> else s);
          attribs' = attribs @ [(''data-parsoid'', JSON_stringify d3)];
          s2 = s1\<lparr>traceLog := traceLog s1 @ [(token, d3)]\<rparr>
      in (attribs', d3, s2))"

text \<open>\<^verbatim>\<open>case String: case NlTk:\<close> (lines 169 to 193).\<close>

fun tokenText :: "token \<Rightarrow> string" where
  "tokenText (StringTk x) = x"
| "tokenText t = [CHR 0x0A]"

definition startsWithNl :: "string \<Rightarrow> bool" where
  "startsWithNl data = (case data of [] \<Rightarrow> False | c # cs \<Rightarrow> c = CHR 0x0A)"

definition charData :: "bool \<Rightarrow> token \<Rightarrow> string" where
  "charData pre token =
     (let data = tokenText token
      in if pre \<and> startsWithNl data then CHR 0x0A # data else data)"

definition transclusionShadow :: command where
  "transclusionShadow = StartTag ''meta'' False [plainAttr ''typeof'' (Str ''mw:TransclusionShadow'')]"

definition caseStringNl :: "token \<Rightarrow> state \<Rightarrow> state" where
  "caseStringNl token s =
     (let s1 = emit (Characters (charData (preceededByPre s) token)) s
      in if inTransclusion s1 \<and> tableDepth s1 > 0 \<and> isString token \<and> \<not> haveTransclusionShadow s1
         then (emit transclusionShadow s1)\<lparr>haveTransclusionShadow := True\<rparr>
         else s1)"

text \<open>\<^verbatim>\<open>case TagTk:\<close> (lines 194 to 226). \<^verbatim>\<open>dataAttribs.tmp.tagId\<close> is a number here, written
  by line 155.\<close>

definition tagIdText :: "data_attribs \<Rightarrow> string" where
  "tagIdText d =
     (case tmp d of None \<Rightarrow> ''undefined''
      | Some t \<Rightarrow> (case tmpTagId t of None \<Rightarrow> ''undefined'' | Some i \<Rightarrow> showInt i))"

definition fosterBox :: command where
  "fosterBox = StartTag ''table'' True [plainAttr ''typeof'' (Str ''mw:FosterBox'')]"

definition startShadow :: "string \<Rightarrow> data_attribs \<Rightarrow> command" where
  "startShadow tName dataAttribs =
     Comment (JSON_object ''mw:shadow''
       [plainAttr ''typeof'' (Str ''mw:StartTag''),
        plainAttr ''data-stag'' (Str (tName @ '':'' @ tagIdText dataAttribs)),
        plainAttr ''data-parsoid'' (JSON_stringify dataAttribs)])"

definition caseTagTk :: "env \<Rightarrow> string \<Rightarrow> attribs \<Rightarrow> data_attribs \<Rightarrow> state \<Rightarrow> state" where
  "caseTagTk env tName attribs dataAttribs s =
     (let s1 = (if tName = ''table''
                then (let s' = s\<lparr>tableDepth := tableDepth s + 1\<rparr>
                      in if \<not> inTransclusion s' then emit fosterBox s' else s')
                else s);
          s2 = emit (StartTag tName False (att env attribs)) s1
      in emit (startShadow tName dataAttribs) s2)"

text \<open>\<^verbatim>\<open>case EndTagTk:\<close> (lines 300 to 321).\<close>

definition endShadow :: "env \<Rightarrow> string \<Rightarrow> attribs \<Rightarrow> data_attribs \<Rightarrow> command" where
  "endShadow env tName attribs dataAttribs =
     Comment (JSON_object ''mw:shadow''
       (att env attribs @
        [plainAttr ''typeof'' (Str ''mw:EndTag''),
         plainAttr ''data-etag'' (Str tName),
         plainAttr ''data-parsoid'' (JSON_stringify dataAttribs)]))"

definition caseEndTagTk :: "env \<Rightarrow> string \<Rightarrow> attribs \<Rightarrow> data_attribs \<Rightarrow> state \<Rightarrow> state" where
  "caseEndTagTk env tName attribs dataAttribs s =
     (let s1 = (if tName = ''table'' \<and> tableDepth s > 0
                then s\<lparr>tableDepth := tableDepth s - 1\<rparr> else s);
          s2 = emit (EndTag tName None) s1
      in if \<not> autoInsertedEnd dataAttribs
         then emit (endShadow env tName attribs dataAttribs) s2
         else s2)"

text \<open>
  The unpacking of a \<^verbatim>\<open>pre\<close> with \<^verbatim>\<open>property="mw:html"\<close> (lines 238 to 260). The filter
  drops the \<^verbatim>\<open>content\<close> and \<^verbatim>\<open>property\<close> attributes and leaves in \<^verbatim>\<open>toks\<close> the value of
  the last \<^verbatim>\<open>content\<close> attribute, \<^verbatim>\<open>undefined\<close> when there is none. \<^verbatim>\<open>toks.unshift\<close> then
  throws a \<^verbatim>\<open>TypeError\<close> unless \<^verbatim>\<open>toks\<close> is an array: the result is \<open>None\<close>.
\<close>

definition lastContent :: "attribs \<Rightarrow> attr_value option" where
  "lastContent attribs =
     (let cs = filter (\<lambda>attr. fst attr = ''content'') attribs
      in if cs = [] then None else Some (snd (last cs)))"

definition unpackPre :: "attribs \<Rightarrow> data_attribs \<Rightarrow> token list option" where
  "unpackPre attribs dataAttribs =
     (let toks = lastContent attribs;
          attribs' = filter (\<lambda>attr. fst attr \<noteq> ''content'' \<and> fst attr \<noteq> ''property'') attribs;
          endpos' = endpos dataAttribs;
          d1 = set_endpos None dataAttribs;
          tsr' = tsr dataAttribs;
          d2 = (case tsr' of None \<Rightarrow> d1 | Some r \<Rightarrow> set_tsr (Some (fst r, endpos')) d1);
          d3 = set_stx (Some ''html'') d2;
          e1 = set_stx (Some ''html'') emptyDataAttribs;
          e2 = (case tsr' of None \<Rightarrow> e1
                | Some r \<Rightarrow> set_tsr (Some (map_option (\<lambda>x. x - 6) (snd r), snd r)) e1)
      in case toks of
           Some (Toks ts) \<Rightarrow> Some (TagTk ''pre'' attribs' (Some d3) # ts @ [EndTagTk ''pre'' [] (Some e2)])
         | _ \<Rightarrow> None)"

text \<open>
  The rest of \<^verbatim>\<open>case SelfclosingTagTk:\<close> (lines 265 to 299): a \<^verbatim>\<open>meta\<close> that need not be
  fostered becomes a comment and may switch \<^verbatim>\<open>inTransclusion\<close>; anything else is a start
  tag, followed by an end tag unless the element is void. \<^verbatim>\<open>tTypeOf.match\<close> throws when
  \<^verbatim>\<open>tTypeOf\<close> is \<^verbatim>\<open>null\<close>.
\<close>

definition shouldFoster :: "env \<Rightarrow> token \<Rightarrow> bool" where
  "shouldFoster env token =
     (if fosterTypeofRE (jsString (getAttribute env token ''typeof'')) then True
      else pagePropRE (jsString (getAttribute env token ''property'')))"

definition genericSelfclosing :: "env \<Rightarrow> string \<Rightarrow> attribs \<Rightarrow> state \<Rightarrow> state" where
  "genericSelfclosing env tName attribs s =
     (let newAttrs = att env attribs;
          s1 = emit (StartTag tName False newAttrs) s
      in if \<not> isVoidElement env tName then emit (EndTag tName (Some newAttrs)) s1 else s1)"

definition caseSelfclosingTagTk :: "env \<Rightarrow> token \<Rightarrow> string \<Rightarrow> attribs \<Rightarrow> state \<Rightarrow> outcome" where
  "caseSelfclosingTagTk env token tName attribs s =
     (if tName = ''meta'' \<and> \<not> shouldFoster env token
      then (case getAttribute env token ''typeof'' of
              None \<Rightarrow> Threw TypeError s
            | Some tTypeOf \<Rightarrow>
                (let s1 = (if prefix ''mw:Transclusion'' tTypeOf
                           then s\<lparr>inTransclusion := (tTypeOf = ''mw:Transclusion'')\<rparr> else s)
                 in Done (emit (Comment (JSON_object tTypeOf (att env attribs))) s1)))
      else Done (genericSelfclosing env tName attribs s))"

text \<open>The statements after the \<^verbatim>\<open>switch\<close> (lines 338 to 361).\<close>

definition epilogue :: "env \<Rightarrow> token \<Rightarrow> state \<Rightarrow> state" where
  "epilogue env token s =
     (let s1 = (if \<not> isString token \<and> token \<noteq> NlTk then s\<lparr>haveTransclusionShadow := False\<rparr> else s);
          s2 = (case token of
                  TagTk n a d \<Rightarrow>
                    (if n = ''pre'' then s1\<lparr>preceededByPre := True\<rparr>
                     else if n = ''span'' \<and> getAttribute env token ''typeof'' = Some ''mw:Nowiki'' then s1
                     else s1\<lparr>preceededByPre := False\<rparr>)
                | _ \<Rightarrow> s1\<lparr>preceededByPre := False\<rparr>)
      in s2\<lparr>lastToken := Some token\<rparr>)"

definition after :: "env \<Rightarrow> token \<Rightarrow> outcome \<Rightarrow> outcome" where
  "after env token r = (case r of Done s \<Rightarrow> Done (epilogue env token s) | Threw e s \<Rightarrow> Threw e s)"

text \<open>A measure for the re-expansion of tokens stored inside a self-closing token.\<close>

fun weight :: "token \<Rightarrow> nat" and weightV :: "attr_value \<Rightarrow> nat" and weightD :: "data_attribs \<Rightarrow> nat" where
  "weight (SelfclosingTagTk n a d) =
     3 + sum_list (map (\<lambda>kv. weightV (snd kv)) a) + (case d of None \<Rightarrow> 0 | Some d' \<Rightarrow> weightD d')"
| "weight t = 0"
| "weightV (Toks ts) = sum_list (map (\<lambda>t. Suc (weight t)) ts)"
| "weightV v = 0"
| "weightD (DataAttribs t r e x a ts re) =
     (case ts of None \<Rightarrow> 0 | Some ts' \<Rightarrow> sum_list (map (\<lambda>t. Suc (weight t)) ts'))"

text \<open>
  \<^verbatim>\<open>processToken\<close> and \<^verbatim>\<open>onChunk\<close>. An exception ends the call that raised it and every
  call around it, so the statements after the \<^verbatim>\<open>switch\<close> are not run and the loop of
  \<^verbatim>\<open>onChunk\<close> stops.
\<close>

function processToken :: "env \<Rightarrow> state \<Rightarrow> token \<Rightarrow> outcome"
  and onChunk :: "env \<Rightarrow> state \<Rightarrow> token list \<Rightarrow> outcome" where
  "processToken env s token =
     (case prepare s token of (attribs, dataAttribs, s1) \<Rightarrow>
        (case token of
           StringTk x \<Rightarrow> Done (epilogue env token (caseStringNl token s1))
         | NlTk \<Rightarrow> Done (epilogue env token (caseStringNl token s1))
         | TagTk tName a d \<Rightarrow> Done (epilogue env token (caseTagTk env tName attribs dataAttribs s1))
         | SelfclosingTagTk tName a d \<Rightarrow>
             (if isEmptyLineMetaToken env token then
                (case tokens dataAttribs of
                   None \<Rightarrow> Threw TypeError s1
                 | Some toks \<Rightarrow> after env token (onChunk env s1 toks))
              else if tName = ''pre'' \<and> getAttribute env token ''property'' = Some ''mw:html'' then
                (case unpackPre attribs dataAttribs of
                   None \<Rightarrow> Threw TypeError s1
                 | Some toks \<Rightarrow> after env token (onChunk env s1 toks))
              else after env token (caseSelfclosingTagTk env token tName attribs s1))
         | EndTagTk tName a d \<Rightarrow> Done (epilogue env token (caseEndTagTk env tName attribs dataAttribs s1))
         | CommentTk v \<Rightarrow> Done (epilogue env token (emit (Comment (Literal v)) s1))
         | EOFTk \<Rightarrow> Done (epilogue env token (emit EOF s1))
         | OtherTk c \<Rightarrow> Done (epilogue env token s1)))"
| "onChunk env s [] = Done s"
| "onChunk env s (t # ts) =
     (case processToken env s t of
        Done s' \<Rightarrow> onChunk env s' ts
      | Threw e s' \<Rightarrow> Threw e s')"
  by pat_completeness auto

definition chunkWeight :: "token list \<Rightarrow> nat" where
  "chunkWeight ts = sum_list (map (\<lambda>t. Suc (weight t)) ts)"

text \<open>The fields as a call leaves them, whether it returned or threw.\<close>

fun stateOf :: "outcome \<Rightarrow> state" where
  "stateOf (Done s) = s"
| "stateOf (Threw e s) = s"

text \<open>
  \<^verbatim>\<open>resetState\<close> (lines 59 to 102). \<^verbatim>\<open>startTokenization\<close> gives the tree builder a new
  document, so the commands received start again; \<^verbatim>\<open>new TagTk('body')\<close> has no attributes
  and no metadata of its own. \<^verbatim>\<open>preceededByPre\<close> and \<^verbatim>\<open>lastToken\<close> are not among the
  fields reset.
\<close>

definition resetState :: "env \<Rightarrow> state \<Rightarrow> outcome" where
  "resetState env s =
     processToken env
       (s\<lparr>tagId := 1, inTransclusion := False, precededByPre := False, tableDepth := 0,
          haveTransclusionShadow := False, emitted := [], traceLog := []\<rparr>)
       (TagTk ''body'' [] None)"

text \<open>The constructor \<^verbatim>\<open>TreeBuilder(env)\<close>: every field is \<^verbatim>\<open>undefined\<close> until
  \<^verbatim>\<open>resetState\<close> runs.\<close>

definition blank :: state where
  "blank = \<lparr>tagId = 0, inTransclusion = False, precededByPre = False, preceededByPre = False,
            tableDepth = 0, haveTransclusionShadow = False, lastToken = None, emitted = [],
            traceLog = []\<rparr>"

definition TreeBuilder :: "env \<Rightarrow> outcome" where
  "TreeBuilder env = resetState env blank"

text \<open>
  \<^verbatim>\<open>onEnd\<close> (lines 111 to 120): whether the loss of \<^verbatim>\<open>EOFTk\<close> is logged (an empty string
  is falsy in \<^verbatim>\<open>this.lastToken && ...\<close>), the document handed over (as the commands it was
  built from), and the reset.
\<close>

definition onEnd :: "env \<Rightarrow> state \<Rightarrow> bool \<times> command list \<times> outcome" where
  "onEnd env s =
     ((case lastToken s of None \<Rightarrow> False | Some t \<Rightarrow> t \<noteq> StringTk [] \<and> t \<noteq> EOFTk),
      emitted s, resetState env s)"

text \<open>The commands a chunk adds to those the tree builder had received before it.\<close>

definition issued :: "env \<Rightarrow> state \<Rightarrow> token list \<Rightarrow> command list" where
  "issued env s toks = drop (length (emitted s)) (emitted (stateOf (onChunk env s toks)))"

text \<open>
  One choice of the collaborators, for running the adapter on concrete tokens:
  \<open>getAttribute\<close> finds the first attribute of that name with a string value, an empty
  line is a \<^verbatim>\<open>meta\<close> of type \<^verbatim>\<open>mw:EmptyLine\<close>, the void elements are those of HTML, and
  the namespace pattern accepts the keys that start with \<^verbatim>\<open>xmlns:\<close>.
\<close>

fun lookupString :: "attribs \<Rightarrow> string \<Rightarrow> string option" where
  "lookupString [] k = None"
| "lookupString ((k', Str v) # as) k = (if k' = k then Some v else lookupString as k)"
| "lookupString ((k', v) # as) k = (if k' = k then None else lookupString as k)"

definition sampleEnv :: env where
  "sampleEnv =
     \<lparr>getAttribute = (\<lambda>t k. case tokenAttribs t of None \<Rightarrow> None | Some a \<Rightarrow> lookupString a k),
      isEmptyLineMetaToken =
        (\<lambda>t. case t of SelfclosingTagTk n a d \<Rightarrow> n = ''meta'' \<and> lookupString a ''typeof'' = Some ''mw:EmptyLine''
                 | _ \<Rightarrow> False),
      isVoidElement =
        (\<lambda>n. n \<in> set [''area'', ''base'', ''br'', ''col'', ''embed'', ''hr'', ''img'', ''input'',
                        ''link'', ''meta'', ''param'', ''source'', ''track'', ''wbr'']),
      XMLNS_ATTRIBUTE_RE = (\<lambda>k. prefix ''xmlns:'' k \<and> 6 < length k)\<rparr>"

section \<open>Vocabulary of the properties\<close>

text \<open>
  The states of one parse: the state the reset leaves, the state after any delivery of
  tokens (whether the delivery returned or threw), and the state in which the tokens
  stored inside a self-closing token are processed.
\<close>

inductive inParse :: "env \<Rightarrow> state \<Rightarrow> bool" for env :: env where
  reset: "inParse env (stateOf (resetState env s))"
| chunk: "inParse env s \<Longrightarrow> inParse env (stateOf (onChunk env s toks))"
| enter: "inParse env s \<Longrightarrow> inParse env (snd (snd (prepare s (SelfclosingTagTk n a d))))"

text \<open>The tag id found in a metadata object, the one a token brings with it, and the
  ids of the entries of the trace that are open or self-closing tags.\<close>

definition isTag :: "token \<Rightarrow> bool" where
  "isTag t = (isTagTk t \<or> isSelfclosingTagTk t)"

definition isText :: "token \<Rightarrow> bool" where
  "isText t = (isString t \<or> t = NlTk)"

definition assignedId :: "data_attribs \<Rightarrow> int option" where
  "assignedId d = (case tmp d of None \<Rightarrow> None | Some t \<Rightarrow> tmpTagId t)"

definition incomingId :: "token \<Rightarrow> int option" where
  "incomingId t = (case tokenDataAttribs t of None \<Rightarrow> None | Some d \<Rightarrow> assignedId d)"

definition tagEntries :: "state \<Rightarrow> (token \<times> data_attribs) list" where
  "tagEntries s = filter (\<lambda>e. isTag (fst e)) (traceLog s)"

definition assignedIds :: "state \<Rightarrow> int option list" where
  "assignedIds s = map (\<lambda>e. assignedId (snd e)) (tagEntries s)"

definition untouched :: "token \<times> data_attribs \<Rightarrow> bool" where
  "untouched e = (isTag (fst e) \<or> assignedId (snd e) = incomingId (fst e))"

text \<open>The metadata object that holds nothing but the scratch map, with or without a
  tag id in it.\<close>

definition scratchOnly :: "int option \<Rightarrow> data_attribs" where
  "scratchOnly i = set_tmp \<lparr>tmpInTransclusion = False, tmpTagId = i\<rparr> emptyDataAttribs"

definition idsOK :: "state \<Rightarrow> bool" where
  "idsOK s = (1 \<le> tagId s \<and> assignedIds s = map Some [1..tagId s - 1] \<and> list_all untouched (traceLog s))"

text \<open>The entry the \<^verbatim>\<open>body\<close> token of \<^verbatim>\<open>resetState\<close> leaves in the trace.\<close>

definition bodyEntry :: "token \<times> data_attribs" where
  "bodyEntry = (TagTk ''body'' [] None, scratchOnly (Some 1))"

text \<open>The metadata object of a token as lines 143 to 156 leave it, which is what
  \<^verbatim>\<open>JSON.stringify(dataAttribs)\<close> serialises for that token.\<close>

definition metadata :: "state \<Rightarrow> token \<Rightarrow> data_attribs" where
  "metadata s t = fst (snd (prepare s t))"

fun threw :: "outcome \<Rightarrow> bool" where
  "threw (Threw e s) = True"
| "threw (Done s) = False"

text \<open>
  Matching of table tags, as for brackets: an open \<^verbatim>\<open>table\<close> waits on a stack, a close
  \<^verbatim>\<open>table\<close> matches the latest open one that still waits, and a close with nothing to
  match is dropped. The result is the positions of the open tags left unmatched.
\<close>

fun isOpenTable :: "token \<Rightarrow> bool" where
  "isOpenTable (TagTk n a d) = (n = ''table'')"
| "isOpenTable t = False"

fun isCloseTable :: "token \<Rightarrow> bool" where
  "isCloseTable (EndTagTk n a d) = (n = ''table'')"
| "isCloseTable t = False"

fun unmatchedOpens :: "nat list \<Rightarrow> nat \<Rightarrow> token list \<Rightarrow> nat list" where
  "unmatchedOpens waiting i [] = waiting"
| "unmatchedOpens waiting i (t # ts) =
     (if isOpenTable t then unmatchedOpens (i # waiting) (Suc i) ts
      else if isCloseTable t then unmatchedOpens (case waiting of [] \<Rightarrow> [] | j # js \<Rightarrow> js) (Suc i) ts
      else unmatchedOpens waiting (Suc i) ts)"

definition unmatched :: "state \<Rightarrow> nat list" where
  "unmatched s = unmatchedOpens [] 0 (map fst (traceLog s))"

definition depthOK :: "state \<Rightarrow> bool" where
  "depthOK s = (tableDepth s = int (length (unmatched s)))"

text \<open>The text commands of a run of strings and newlines: only the first token of a
  run can follow a \<^verbatim>\<open>pre\<close>.\<close>

fun textCommands :: "bool \<Rightarrow> token list \<Rightarrow> command list" where
  "textCommands pre [] = []"
| "textCommands pre (t # ts) = Characters (charData pre t) # textCommands False ts"

text \<open>The commands of a run of strings and newlines processed inside a table inside a
  transclusion, given whether the run follows a \<^verbatim>\<open>pre\<close> and whether it already has its
  transclusion shadow.\<close>

fun runCommands :: "bool \<Rightarrow> bool \<Rightarrow> token list \<Rightarrow> command list" where
  "runCommands pre got [] = []"
| "runCommands pre got (t # ts) =
     Characters (charData pre t) #
       (if isString t \<and> \<not> got then transclusionShadow # runCommands False True ts
        else runCommands False got ts)"

text \<open>The attribute of a given name in the payload of a shadow comment, and the
  \<^verbatim>\<open>data-parsoid\<close> attributes in the attribute list of an element command.\<close>

fun shadowField :: "string \<Rightarrow> command \<Rightarrow> attr_value option" where
  "shadowField k (Comment (JSON_object ty as)) = map_of (map (\<lambda>a. (nodeName a, nodeValue a)) as) k"
| "shadowField k c = None"

fun elementAttrs :: "command \<Rightarrow> dom_attr list" where
  "elementAttrs (StartTag n sc as) = as"
| "elementAttrs (EndTag n (Some as)) = as"
| "elementAttrs c = []"

definition dataParsoid :: "command \<Rightarrow> attr_value list" where
  "dataParsoid c = map nodeValue (filter (\<lambda>a. nodeName a = ''data-parsoid'') (elementAttrs c))"

text \<open>Concrete inputs: the paragraph of the first scenario, a transclusion that opens a table, an open \<^verbatim>\<open>pre\<close>, and a packed
  \<^verbatim>\<open>pre\<close> without its \<^verbatim>\<open>content\<close>.\<close>

definition basicParagraph :: "token list" where
  "basicParagraph = [TagTk ''p'' [] None, StringTk ''hi'', EndTagTk ''p'' [] None, EOFTk]"

definition fresh :: state where
  "fresh = stateOf (TreeBuilder sampleEnv)"

definition afterParagraph :: state where
  "afterParagraph = stateOf (onChunk sampleEnv fresh basicParagraph)"

definition tableInTransclusion :: state where
  "tableInTransclusion =
     stateOf (onChunk sampleEnv fresh
       [SelfclosingTagTk ''meta'' [(''typeof'', Str ''mw:Transclusion'')] None,
        TagTk ''table'' [] None])"

definition afterPre :: state where
  "afterPre = stateOf (processToken sampleEnv fresh (TagTk ''pre'' [] None))"

definition preWithoutContent :: token where
  "preWithoutContent = SelfclosingTagTk ''pre'' [(''property'', Str ''mw:html'')] None"

section \<open>Termination\<close>

lemma chunkWeight_simps [simp]:
  "chunkWeight [] = 0"
  "chunkWeight (t # ts) = Suc (weight t) + chunkWeight ts"
  "chunkWeight (ts @ us) = chunkWeight ts + chunkWeight us"
  by (simp_all add: chunkWeight_def)

lemma tokens_prepare:
  "prepare s token = (attribs, dataAttribs, s1) \<Longrightarrow>
   tokens dataAttribs = (case tokenDataAttribs token of None \<Rightarrow> None | Some d \<Rightarrow> tokens d)"
  by (auto simp: prepare_def Let_def upd_tmp_def set_tmp_def emptyDataAttribs_def split: option.splits)

lemma attribs_prepare:
  "prepare s token = (attribs, dataAttribs, s1) \<Longrightarrow>
   \<exists>d. attribs = (case tokenAttribs token of None \<Rightarrow> [] | Some a \<Rightarrow> a) @ [(''data-parsoid'', JSON_stringify d)]"
  by (auto simp: prepare_def Let_def)

lemma weightD_tokens: "tokens d = Some ts \<Longrightarrow> weightD d = chunkWeight ts"
  by (cases d) (simp add: chunkWeight_def)

lemma lastContent_weight:
  "lastContent a = Some (Toks ts) \<Longrightarrow> chunkWeight ts \<le> sum_list (map (\<lambda>kv. weightV (snd kv)) a)"
proof (induction a rule: rev_induct)
  case Nil
  then show ?case by (simp add: lastContent_def)
next
  case (snoc x xs)
  show ?case
  proof (cases "fst x = ''content''")
    case True
    with snoc.prems have "snd x = Toks ts"
      by (simp add: lastContent_def)
    then show ?thesis by (simp add: chunkWeight_def)
  next
    case False
    with snoc.prems have "lastContent xs = Some (Toks ts)"
      by (simp add: lastContent_def)
    with snoc.IH show ?thesis by simp
  qed
qed

lemma unpackPre_weight:
  "unpackPre a d = Some toks \<Longrightarrow>
   chunkWeight toks \<le> 2 + sum_list (map (\<lambda>kv. weightV (snd kv)) a)"
  by (auto simp: unpackPre_def Let_def split: option.splits attr_value.splits dest: lastContent_weight)

termination processToken
proof (relation "measure (\<lambda>x. case x of Inl (env, s, t) \<Rightarrow> 2 * weight t + 1 | Inr (env, s, ts) \<Rightarrow> 2 * chunkWeight ts)",
    goal_cases)
  case 1
  show ?case by simp
next
  case (2 env s token attribs yy dataAttribs s1 tName a d toks)
  from 2 have "prepare s token = (attribs, dataAttribs, s1)" by simp
  from tokens_prepare [OF this] 2 have "\<exists>d'. d = Some d' \<and> tokens d' = Some toks"
    by (auto split: option.splits)
  then show ?case using 2 by (auto simp: weightD_tokens)
next
  case (3 env s token attribs yy dataAttribs s1 tName a d toks)
  from 3 have "prepare s token = (attribs, dataAttribs, s1)" by simp
  from attribs_prepare [OF this] 3 obtain d' where "attribs = a @ [(''data-parsoid'', JSON_stringify d')]"
    by auto
  with unpackPre_weight [of attribs dataAttribs toks] 3 show ?case by auto
next
  case 4
  show ?case by simp
next
  case 5
  show ?case by simp
qed

declare processToken.simps [simp del]


section \<open>The equations of the adapter, token by token\<close>

lemma processToken_StringTk:
  "processToken env s (StringTk x) =
     Done (epilogue env (StringTk x) (caseStringNl (StringTk x) (snd (snd (prepare s (StringTk x))))))"
  by (simp add: processToken.simps split: prod.splits)

lemma processToken_NlTk:
  "processToken env s NlTk = Done (epilogue env NlTk (caseStringNl NlTk (snd (snd (prepare s NlTk)))))"
  by (simp add: processToken.simps split: prod.splits)

lemma processToken_TagTk:
  "processToken env s (TagTk n a d) =
     Done (epilogue env (TagTk n a d)
       (caseTagTk env n (fst (prepare s (TagTk n a d))) (fst (snd (prepare s (TagTk n a d))))
          (snd (snd (prepare s (TagTk n a d))))))"
  by (simp add: processToken.simps split: prod.splits)

lemma processToken_EndTagTk:
  "processToken env s (EndTagTk n a d) =
     Done (epilogue env (EndTagTk n a d)
       (caseEndTagTk env n (fst (prepare s (EndTagTk n a d))) (fst (snd (prepare s (EndTagTk n a d))))
          (snd (snd (prepare s (EndTagTk n a d))))))"
  by (simp add: processToken.simps split: prod.splits)

lemma processToken_CommentTk:
  "processToken env s (CommentTk v) =
     Done (epilogue env (CommentTk v) (emit (Comment (Literal v)) (snd (snd (prepare s (CommentTk v))))))"
  by (simp add: processToken.simps split: prod.splits)

lemma processToken_EOFTk:
  "processToken env s EOFTk = Done (epilogue env EOFTk (emit EOF (snd (snd (prepare s EOFTk)))))"
  by (simp add: processToken.simps split: prod.splits)

lemma processToken_OtherTk:
  "processToken env s (OtherTk c) = Done (epilogue env (OtherTk c) (snd (snd (prepare s (OtherTk c)))))"
  by (simp add: processToken.simps split: prod.splits)

lemma processToken_SelfclosingTagTk:
  assumes "prepare s (SelfclosingTagTk n a d) = (attribs, dataAttribs, s1)"
  shows "processToken env s (SelfclosingTagTk n a d) =
     (if isEmptyLineMetaToken env (SelfclosingTagTk n a d) then
        (case tokens dataAttribs of
           None \<Rightarrow> Threw TypeError s1
         | Some toks \<Rightarrow> after env (SelfclosingTagTk n a d) (onChunk env s1 toks))
      else if n = ''pre'' \<and> getAttribute env (SelfclosingTagTk n a d) ''property'' = Some ''mw:html'' then
        (case unpackPre attribs dataAttribs of
           None \<Rightarrow> Threw TypeError s1
         | Some toks \<Rightarrow> after env (SelfclosingTagTk n a d) (onChunk env s1 toks))
      else after env (SelfclosingTagTk n a d)
             (caseSelfclosingTagTk env (SelfclosingTagTk n a d) n attribs s1))"
  using assms by (simp add: processToken.simps)

lemmas flat_equations = processToken_StringTk processToken_NlTk processToken_TagTk
  processToken_EndTagTk processToken_CommentTk processToken_EOFTk processToken_OtherTk

lemmas step_defs = prepare_def caseStringNl_def caseTagTk_def caseEndTagTk_def epilogue_def
  emit_def upd_tmp_def set_tmp_def emptyDataAttribs_def emptyTmp_def Let_def

text \<open>
  A property of the state that every token without stored tokens keeps, that the
  preparation of a self-closing token keeps, and that the generic handling and the
  statements after the \<^verbatim>\<open>switch\<close> keep, holds after every call, however deep the stored
  tokens are nested and whether the call returns or throws.
\<close>

lemma processToken_invariant:
  assumes flat: "\<And>env s t. I s \<Longrightarrow> \<not> isSelfclosingTagTk t \<Longrightarrow> I (stateOf (processToken env s t))"
    and enter: "\<And>s n a d. I s \<Longrightarrow> I (snd (snd (prepare s (SelfclosingTagTk n a d))))"
    and generic: "\<And>env s t n attribs. I s \<Longrightarrow> I (stateOf (caseSelfclosingTagTk env t n attribs s))"
    and leave: "\<And>env s t. I s \<Longrightarrow> I (epilogue env t s)"
  shows "I s \<Longrightarrow> I (stateOf (processToken env s t))"
    and "I s \<Longrightarrow> I (stateOf (onChunk env s ts))"
proof (induction env s t and env s ts rule: processToken_onChunk.induct)
  case (1 env s token)
  show ?case
  proof (cases token)
    case (SelfclosingTagTk n a d)
    obtain attribs dataAttribs s1 where p: "prepare s token = (attribs, dataAttribs, s1)"
      by (cases "prepare s token") auto
    have s1: "I s1" using enter [OF "1.prems", of n a d] p SelfclosingTagTk by simp
    have leave': "\<And>r. I (stateOf r) \<Longrightarrow> I (stateOf (after env token r))"
      subgoal for r by (cases r) (auto simp: after_def intro: leave)
      done
    have ih1: "\<And>toks. isEmptyLineMetaToken env token \<Longrightarrow> tokens dataAttribs = Some toks
        \<Longrightarrow> I (stateOf (onChunk env s1 toks))"
      using "1.IH"(1) [OF _ _ SelfclosingTagTk] p s1 by simp
    have ih2: "\<And>toks. \<not> isEmptyLineMetaToken env token \<Longrightarrow>
        n = ''pre'' \<and> getAttribute env token ''property'' = Some ''mw:html'' \<Longrightarrow>
        unpackPre attribs dataAttribs = Some toks \<Longrightarrow> I (stateOf (onChunk env s1 toks))"
      using "1.IH"(2) [OF _ _ SelfclosingTagTk] p s1 by simp
    show ?thesis
      unfolding SelfclosingTagTk processToken_SelfclosingTagTk [OF p [unfolded SelfclosingTagTk]]
      using s1 ih1 ih2 leave' generic [OF s1] SelfclosingTagTk
      by (auto split: option.splits)
  qed (use flat "1.prems" in auto)
next
  case (2 env s)
  then show ?case by simp
next
  case (3 env s t ts)
  then show ?case by (auto split: outcome.splits)
qed

lemma inParse_invariant:
  assumes start: "\<And>env s. I (stateOf (resetState env s))"
    and flat: "\<And>env s t. I s \<Longrightarrow> \<not> isSelfclosingTagTk t \<Longrightarrow> I (stateOf (processToken env s t))"
    and enter: "\<And>s n a d. I s \<Longrightarrow> I (snd (snd (prepare s (SelfclosingTagTk n a d))))"
    and generic: "\<And>env s t n attribs. I s \<Longrightarrow> I (stateOf (caseSelfclosingTagTk env t n attribs s))"
    and leave: "\<And>env s t. I s \<Longrightarrow> I (epilogue env t s)"
  shows "inParse env s \<Longrightarrow> I s"
proof (induction rule: inParse.induct)
  case (reset s)
  show ?case by (rule start)
next
  case (chunk s toks)
  then show ?case using processToken_invariant(2) [of I, OF flat enter generic leave] by blast
next
  case (enter s n a d)
  from enter.IH show ?case by (rule assms(3))
qed

section \<open>The reset and the first scenario\<close>

lemmas shadow_defs = startShadow_def endShadow_def tagIdText_def showInt_def showNat.simps
  scratchOnly_def

lemma resetState_Done:
  "resetState env s =
     Done (s\<lparr>tagId := 2, inTransclusion := False, precededByPre := False, preceededByPre := False,
            tableDepth := 0, haveTransclusionShadow := False,
            lastToken := Some (TagTk ''body'' [] None),
            emitted :=
              [StartTag ''body'' False (att env [(''data-parsoid'', JSON_stringify (scratchOnly (Some 1)))]),
               Comment (JSON_object ''mw:shadow''
                 [plainAttr ''typeof'' (Str ''mw:StartTag''),
                  plainAttr ''data-stag'' (Str ''body:1''),
                  plainAttr ''data-parsoid'' (JSON_stringify (scratchOnly (Some 1)))])],
            traceLog := [(TagTk ''body'' [] None, scratchOnly (Some 1))]\<rparr>)"
  by (simp add: resetState_def flat_equations step_defs shadow_defs)

text \<open>
  Claim C1, as amended. From a freshly reset adapter the tokens \<^verbatim>\<open>OpenTag("p")\<close>,
  \<^verbatim>\<open>Text("hi")\<close>, \<^verbatim>\<open>CloseTag("p")\<close>, \<^verbatim>\<open>EndOfStream\<close> are all processed, and the commands they
  add are exactly: the open of \<^verbatim>\<open>p\<close>, the open-shadow comment whose \<^verbatim>\<open>data-stag\<close> is
  \<^verbatim>\<open>p:2\<close> (the reset has given id 1 to its \<^verbatim>\<open>body\<close> token), the text \<^verbatim>\<open>hi\<close>, the close of
  \<^verbatim>\<open>p\<close>, the close-shadow comment for \<^verbatim>\<open>p\<close>, and the end of the stream.
\<close>

theorem basic_paragraph_commands:
  "\<exists>s0 s1. resetState env s = Done s0 \<and> onChunk env s0 basicParagraph = Done s1 \<and>
     emitted s1 = emitted s0 @
       [StartTag ''p'' False (att env [(''data-parsoid'', JSON_stringify (scratchOnly (Some 2)))]),
        Comment (JSON_object ''mw:shadow''
          [plainAttr ''typeof'' (Str ''mw:StartTag''),
           plainAttr ''data-stag'' (Str ''p:2''),
           plainAttr ''data-parsoid'' (JSON_stringify (scratchOnly (Some 2)))]),
        Characters ''hi'',
        EndTag ''p'' None,
        Comment (JSON_object ''mw:shadow''
          (att env [(''data-parsoid'', JSON_stringify (scratchOnly None))] @
           [plainAttr ''typeof'' (Str ''mw:EndTag''),
            plainAttr ''data-etag'' (Str ''p''),
            plainAttr ''data-parsoid'' (JSON_stringify (scratchOnly None))])),
        EOF]"
  by (simp add: resetState_Done basicParagraph_def flat_equations step_defs shadow_defs
      charData_def startsWithNl_def)

text \<open>The claim as it is written fails: the second command of the scenario is a shadow
  whose \<^verbatim>\<open>data-stag\<close> is \<^verbatim>\<open>p:2\<close>, not \<^verbatim>\<open>p:1\<close>.\<close>

theorem basic_paragraph_counterexample:
  "shadowField ''data-stag'' (issued sampleEnv fresh basicParagraph ! 1) = Some (Str ''p:2'') \<and>
   shadowField ''data-stag'' (issued sampleEnv fresh basicParagraph ! 1) \<noteq> Some (Str ''p:1'')"
  by (simp add: issued_def fresh_def TreeBuilder_def resetState_Done blank_def basicParagraph_def
      flat_equations step_defs shadow_defs charData_def startsWithNl_def plainAttr_def att_def)

section \<open>What a call does to the trace and the counters\<close>

lemma prepare_trace:
  "traceLog (snd (snd (prepare s t))) = traceLog s @ [(t, fst (snd (prepare s t)))]"
  "tagId (snd (snd (prepare s t))) = (if isTag t then tagId s + 1 else tagId s)"
  by (simp_all add: prepare_def Let_def isTag_def)

lemma prepare_assignedId:
  "assignedId (fst (snd (prepare s t))) = (if isTag t then Some (tagId s) else incomingId t)"
  by (auto simp: prepare_def Let_def isTag_def assignedId_def incomingId_def upd_tmp_def set_tmp_def
      emptyDataAttribs_def emptyTmp_def split: option.splits)

lemma prepare_frame:
  "emitted (snd (snd (prepare s t))) = emitted s"
  "tableDepth (snd (snd (prepare s t))) = tableDepth s"
  "inTransclusion (snd (snd (prepare s t))) = inTransclusion s"
  "haveTransclusionShadow (snd (snd (prepare s t))) = haveTransclusionShadow s"
  "preceededByPre (snd (snd (prepare s t))) = preceededByPre s"
  "lastToken (snd (snd (prepare s t))) = lastToken s"
  by (simp_all add: prepare_def Let_def)

lemma epilogue_frame:
  "traceLog (epilogue env t s) = traceLog s"
  "tagId (epilogue env t s) = tagId s"
  "tableDepth (epilogue env t s) = tableDepth s"
  "emitted (epilogue env t s) = emitted s"
  "inTransclusion (epilogue env t s) = inTransclusion s"
  by (simp_all add: epilogue_def Let_def split: token.splits)

lemma generic_frame:
  "traceLog (stateOf (caseSelfclosingTagTk env t n a s)) = traceLog s"
  "tagId (stateOf (caseSelfclosingTagTk env t n a s)) = tagId s"
  "tableDepth (stateOf (caseSelfclosingTagTk env t n a s)) = tableDepth s"
  by (simp_all add: caseSelfclosingTagTk_def genericSelfclosing_def emit_def Let_def split: option.splits)

lemma flat_trace:
  "\<not> isSelfclosingTagTk t \<Longrightarrow> traceLog (stateOf (processToken env s t)) = traceLog (snd (snd (prepare s t)))"
  "\<not> isSelfclosingTagTk t \<Longrightarrow> tagId (stateOf (processToken env s t)) = tagId (snd (snd (prepare s t)))"
  by (cases t; simp add: flat_equations epilogue_frame caseStringNl_def caseTagTk_def caseEndTagTk_def
      emit_def Let_def)+

lemma trace_invariant:
  assumes reach: "inParse env s"
    and start: "\<And>env s. J (stateOf (resetState env s))"
    and prep: "\<And>s t. J s \<Longrightarrow> J (snd (snd (prepare s t)))"
    and frame: "\<And>s s'. J s \<Longrightarrow> traceLog s' = traceLog s \<Longrightarrow> tagId s' = tagId s \<Longrightarrow> J s'"
  shows "J s"
proof (rule inParse_invariant [where I = J, OF _ _ _ _ _ reach], goal_cases)
  case (1 env s)
  show ?case by (rule start)
next
  case (2 env s t)
  show ?case by (rule frame [OF prep [OF 2(1), of t]]) (simp_all add: flat_trace 2)
next
  case (3 s n a d)
  then show ?case by (rule prep)
next
  case (4 env s t n attribs)
  then show ?case by (rule frame) (simp_all add: generic_frame)
next
  case (5 env s t)
  then show ?case by (rule frame) (simp_all add: epilogue_frame)
qed

section \<open>Tag ids\<close>

lemma inParse_idsOK: "inParse env s \<Longrightarrow> idsOK s"
proof (erule trace_invariant [where J = idsOK], goal_cases)
  case (1 env s)
  show ?case
    by (simp add: idsOK_def resetState_Done assignedIds_def tagEntries_def isTag_def untouched_def
        assignedId_def scratchOnly_def set_tmp_def)
next
  case (2 s t)
  then show ?case
    by (auto simp: idsOK_def assignedIds_def tagEntries_def prepare_trace prepare_assignedId
        untouched_def upto_rec2)
next
  case (3 s s')
  then show ?case by (simp add: idsOK_def assignedIds_def tagEntries_def)
qed

lemma inParse_bodyEntry: "inParse env s \<Longrightarrow> \<exists>ext. traceLog s = bodyEntry # ext"
proof (erule trace_invariant [where J = "\<lambda>s. \<exists>ext. traceLog s = bodyEntry # ext"], goal_cases)
  case (1 env s)
  show ?case by (simp add: resetState_Done bodyEntry_def)
next
  case (2 s t)
  then show ?case by (auto simp: prepare_trace)
next
  case (3 s s')
  then show ?case by simp
qed

text \<open>
  Claim C5. Within one parse the ids given to the open and self-closing tags, in the
  order the tags are processed and counting the \<^verbatim>\<open>body\<close> tag of the reset, are
  \<open>1, 2, \<dots>, tagId - 1\<close>: a strictly increasing sequence of integers that starts at 1
  and has no repeats. A token of another kind is given no id: its metadata object holds
  the id the token came with, if any.
\<close>

theorem tag_ids_increasing:
  "inParse env s \<Longrightarrow>
     assignedIds s = map Some [1..tagId s - 1] \<and> 2 \<le> tagId s \<and>
     sorted_wrt (<) [1..tagId s - 1] \<and> distinct [1..tagId s - 1] \<and>
     list_all untouched (traceLog s)"
proof -
  assume h: "inParse env s"
  from inParse_idsOK [OF h] have ok: "idsOK s" .
  from inParse_bodyEntry [OF h] obtain ext where "traceLog s = bodyEntry # ext" ..
  then have "assignedIds s \<noteq> []"
    by (simp add: assignedIds_def tagEntries_def bodyEntry_def isTag_def)
  with ok have "2 \<le> tagId s" by (auto simp: idsOK_def)
  moreover have "sorted_wrt (<) [1..tagId s - 1]"
    by (simp add: strict_sorted_iff)
  ultimately show ?thesis using ok by (simp add: idsOK_def)
qed


lemma inParse_fresh: "inParse sampleEnv fresh"
  unfolding fresh_def TreeBuilder_def by (rule inParse.reset)

lemma inParse_afterParagraph: "inParse sampleEnv afterParagraph"
  unfolding afterParagraph_def by (rule inParse.chunk [OF inParse_fresh])

lemma fresh_value:
  "fresh = \<lparr>tagId = 2, inTransclusion = False, precededByPre = False, preceededByPre = False,
            tableDepth = 0, haveTransclusionShadow = False,
            lastToken = Some (TagTk ''body'' [] None),
            emitted =
              [StartTag ''body'' False (att sampleEnv [(''data-parsoid'', JSON_stringify (scratchOnly (Some 1)))]),
               Comment (JSON_object ''mw:shadow''
                 [plainAttr ''typeof'' (Str ''mw:StartTag''),
                  plainAttr ''data-stag'' (Str ''body:1''),
                  plainAttr ''data-parsoid'' (JSON_stringify (scratchOnly (Some 1)))])],
            traceLog = [bodyEntry]\<rparr>"
  by (simp add: fresh_def TreeBuilder_def resetState_Done blank_def bodyEntry_def)

lemma afterParagraph_trace:
  "traceLog afterParagraph =
     [bodyEntry, (TagTk ''p'' [] None, scratchOnly (Some 2)), (StringTk ''hi'', scratchOnly None),
      (EndTagTk ''p'' [] None, scratchOnly None), (EOFTk, scratchOnly None)]"
  "tagId afterParagraph = 3"
  by (simp_all add: afterParagraph_def fresh_value basicParagraph_def flat_equations step_defs
      scratchOnly_def)

theorem tag_ids_increasing_witness:
  "inParse sampleEnv afterParagraph \<and>
   assignedIds afterParagraph = [Some 1, Some 2] \<and>
   sorted_wrt (<) [1..tagId afterParagraph - 1] \<and> distinct [1..tagId afterParagraph - 1] \<and>
   list_all untouched (traceLog afterParagraph)"
proof -
  have ids: "[1..tagId afterParagraph - 1] = [1, 2]"
    by (simp add: afterParagraph_trace upto.simps)
  show ?thesis
    using tag_ids_increasing [OF inParse_afterParagraph] inParse_afterParagraph ids by simp
qed

text \<open>
  Claim C10. A reset returns after it has put the \<^verbatim>\<open>body\<close> token through
  \<^verbatim>\<open>processToken\<close>: the tree builder has received the open of \<^verbatim>\<open>body\<close> and its shadow
  \<^verbatim>\<open>body:1\<close>, and the counter stands at 2. So in every state of a parse the first tag of
  the trace is that \<^verbatim>\<open>body\<close> with id 1, and the next open or self-closing tag, the first
  one that comes from the token stream, has id 2.
\<close>

theorem reset_takes_first_id:
  "(\<exists>s0. resetState env s = Done s0 \<and> tagId s0 = 2 \<and> traceLog s0 = [bodyEntry] \<and>
      emitted s0 =
        [StartTag ''body'' False (att env [(''data-parsoid'', JSON_stringify (scratchOnly (Some 1)))]),
         Comment (JSON_object ''mw:shadow''
           [plainAttr ''typeof'' (Str ''mw:StartTag''),
            plainAttr ''data-stag'' (Str ''body:1''),
            plainAttr ''data-parsoid'' (JSON_stringify (scratchOnly (Some 1)))])]) \<and>
   (inParse env s' \<longrightarrow>
      hd (tagEntries s') = bodyEntry \<and>
      (1 < length (tagEntries s') \<longrightarrow> assignedId (snd (tagEntries s' ! 1)) = Some 2))"
proof (intro conjI impI)
  show "\<exists>s0. resetState env s = Done s0 \<and> tagId s0 = 2 \<and> traceLog s0 = [bodyEntry] \<and>
      emitted s0 =
        [StartTag ''body'' False (att env [(''data-parsoid'', JSON_stringify (scratchOnly (Some 1)))]),
         Comment (JSON_object ''mw:shadow''
           [plainAttr ''typeof'' (Str ''mw:StartTag''),
            plainAttr ''data-stag'' (Str ''body:1''),
            plainAttr ''data-parsoid'' (JSON_stringify (scratchOnly (Some 1)))])]"
    by (simp add: resetState_Done bodyEntry_def)
next
  assume h: "inParse env s'"
  from inParse_bodyEntry [OF h] obtain ext where "traceLog s' = bodyEntry # ext" ..
  then show "hd (tagEntries s') = bodyEntry"
    by (simp add: tagEntries_def bodyEntry_def isTag_def)
next
  assume h: "inParse env s'" and len: "1 < length (tagEntries s')"
  from inParse_idsOK [OF h] have ids: "assignedIds s' = map Some [1..tagId s' - 1]"
    by (simp add: idsOK_def)
  from len have "1 < length (assignedIds s')" by (simp add: assignedIds_def)
  with ids have len': "1 < length [1..tagId s' - 1]" by simp
  then have "[1..tagId s' - 1] ! 1 = 2" by (subst nth_upto) auto
  with len' have "map Some [1..tagId s' - 1] ! 1 = Some 2" by simp
  with ids have "assignedIds s' ! 1 = Some 2" by simp
  with len show "assignedId (snd (tagEntries s' ! 1)) = Some 2"
    by (simp add: assignedIds_def)
qed

theorem reset_takes_first_id_witness:
  "inParse sampleEnv afterParagraph \<and> 1 < length (tagEntries afterParagraph) \<and>
   hd (tagEntries afterParagraph) = bodyEntry \<and>
   tagEntries afterParagraph ! 1 = (TagTk ''p'' [] None, scratchOnly (Some 2)) \<and>
   assignedId (snd (tagEntries afterParagraph ! 1)) = Some 2"
proof -
  have entries: "tagEntries afterParagraph = [bodyEntry, (TagTk ''p'' [] None, scratchOnly (Some 2))]"
    by (simp add: tagEntries_def afterParagraph_trace isTag_def bodyEntry_def)
  then have len: "1 < length (tagEntries afterParagraph)" by simp
  show ?thesis
    using reset_takes_first_id [of sampleEnv blank afterParagraph] inParse_afterParagraph len entries
    by simp
qed


section \<open>The table depth\<close>

lemma unmatchedOpens_append:
  "unmatchedOpens w i (xs @ ys) = unmatchedOpens (unmatchedOpens w i xs) (i + length xs) ys"
  by (induction xs arbitrary: w i) auto

lemma unmatched_snoc:
  "traceLog s' = traceLog s @ [(t, d)] \<Longrightarrow>
   unmatched s' =
     (if isOpenTable t then length (traceLog s) # unmatched s
      else if isCloseTable t then (case unmatched s of [] \<Rightarrow> [] | j # js \<Rightarrow> js)
      else unmatched s)"
  by (simp add: unmatched_def unmatchedOpens_append)

lemma flat_depth:
  "\<not> isSelfclosingTagTk t \<Longrightarrow>
   tableDepth (stateOf (processToken env s t)) =
     (if isOpenTable t then tableDepth s + 1
      else if isCloseTable t \<and> 0 < tableDepth s then tableDepth s - 1
      else tableDepth s)"
  by (cases t) (simp_all add: flat_equations epilogue_frame prepare_frame caseStringNl_def
      caseTagTk_def caseEndTagTk_def emit_def Let_def transclusionShadow_def)

lemma inParse_depthOK:
  assumes "inParse env s"
  shows "depthOK s"
proof (rule inParse_invariant [where I = depthOK, OF _ _ _ _ _ assms], goal_cases)
  case (1 env s)
  show ?case
    by (simp add: depthOK_def unmatched_def resetState_Done)
next
  case (2 env s t)
  have tr: "traceLog (stateOf (processToken env s t)) = traceLog s @ [(t, fst (snd (prepare s t)))]"
    using 2 by (simp add: flat_trace prepare_trace)
  show ?case
    using 2 unfolding depthOK_def unmatched_snoc [OF tr] flat_depth [OF 2(2)]
    by (auto split: list.splits)
next
  case (3 s n a d)
  have tr: "traceLog (snd (snd (prepare s (SelfclosingTagTk n a d)))) =
      traceLog s @ [(SelfclosingTagTk n a d, fst (snd (prepare s (SelfclosingTagTk n a d))))]"
    by (simp add: prepare_trace)
  show ?case
    using 3 unfolding depthOK_def unmatched_snoc [OF tr] by (simp add: prepare_frame)
next
  case (4 env s t n attribs)
  then show ?case by (simp add: depthOK_def unmatched_def generic_frame)
next
  case (5 env s t)
  then show ?case by (simp add: depthOK_def unmatched_def epilogue_frame)
qed

text \<open>
  Claim C2. In every state of a parse, whatever tokens have been processed and however
  they were nested, \<^verbatim>\<open>tableDepth\<close> is at least 0 and equals the number of open \<^verbatim>\<open>table\<close>
  tokens of the trace that no later close \<^verbatim>\<open>table\<close> token has matched; so it is positive
  exactly when such a token exists. A close \<^verbatim>\<open>table\<close> lowers it by one and leaves it at 0
  when it is 0.
\<close>

theorem tableDepth_counts_unmatched:
  "inParse env s \<Longrightarrow>
     0 \<le> tableDepth s \<and> tableDepth s = int (length (unmatched s)) \<and>
     (0 < tableDepth s \<longleftrightarrow> unmatched s \<noteq> []) \<and>
     tableDepth (stateOf (processToken env s (EndTagTk ''table'' a d))) = max 0 (tableDepth s - 1)"
proof -
  assume h: "inParse env s"
  from inParse_depthOK [OF h] have "tableDepth s = int (length (unmatched s))"
    by (simp add: depthOK_def)
  then show ?thesis by (auto simp: flat_depth)
qed

lemma inParse_tableInTransclusion: "inParse sampleEnv tableInTransclusion"
  unfolding tableInTransclusion_def by (rule inParse.chunk [OF inParse_fresh])

lemma sampleEnv_fields:
  "getAttribute sampleEnv t k = (case tokenAttribs t of None \<Rightarrow> None | Some a \<Rightarrow> lookupString a k)"
  "isEmptyLineMetaToken sampleEnv (SelfclosingTagTk n a d) = (n = ''meta'' \<and> lookupString a ''typeof'' = Some ''mw:EmptyLine'')"
  "isVoidElement sampleEnv n = (n \<in> set [''area'', ''base'', ''br'', ''col'', ''embed'', ''hr'', ''img'', ''input'',
                        ''link'', ''meta'', ''param'', ''source'', ''track'', ''wbr''])"
  "XMLNS_ATTRIBUTE_RE sampleEnv k = (prefix ''xmlns:'' k \<and> 6 < length k)"
  by (simp_all add: sampleEnv_def)

lemmas regex_defs = shouldFoster_def fosterTypeofRE_def pagePropRE_def jsString_def
  wordBoundary_def wordAt_def isWordChar_def isLetter_def

lemma processToken_SelfclosingTagTk_proj:
  "processToken env s (SelfclosingTagTk n a d) =
     (if isEmptyLineMetaToken env (SelfclosingTagTk n a d) then
        (case tokens (fst (snd (prepare s (SelfclosingTagTk n a d)))) of
           None \<Rightarrow> Threw TypeError (snd (snd (prepare s (SelfclosingTagTk n a d))))
         | Some toks \<Rightarrow> after env (SelfclosingTagTk n a d)
             (onChunk env (snd (snd (prepare s (SelfclosingTagTk n a d)))) toks))
      else if n = ''pre'' \<and> getAttribute env (SelfclosingTagTk n a d) ''property'' = Some ''mw:html'' then
        (case unpackPre (fst (prepare s (SelfclosingTagTk n a d)))
                (fst (snd (prepare s (SelfclosingTagTk n a d)))) of
           None \<Rightarrow> Threw TypeError (snd (snd (prepare s (SelfclosingTagTk n a d))))
         | Some toks \<Rightarrow> after env (SelfclosingTagTk n a d)
             (onChunk env (snd (snd (prepare s (SelfclosingTagTk n a d)))) toks))
      else after env (SelfclosingTagTk n a d)
             (caseSelfclosingTagTk env (SelfclosingTagTk n a d) n
                (fst (prepare s (SelfclosingTagTk n a d)))
                (snd (snd (prepare s (SelfclosingTagTk n a d))))))"
  by (rule processToken_SelfclosingTagTk) simp

lemma tableInTransclusion_value:
  "inTransclusion tableInTransclusion"
  "tableDepth tableInTransclusion = 1"
  "haveTransclusionShadow tableInTransclusion = False"
  "preceededByPre tableInTransclusion = False"
  "map fst (traceLog tableInTransclusion) =
     [TagTk ''body'' [] None, SelfclosingTagTk ''meta'' [(''typeof'', Str ''mw:Transclusion'')] None,
      TagTk ''table'' [] None]"
  by (simp_all add: tableInTransclusion_def fresh_value bodyEntry_def flat_equations step_defs
      processToken_SelfclosingTagTk_proj
      sampleEnv_fields caseSelfclosingTagTk_def regex_defs after_def)


theorem tableDepth_counts_unmatched_witness:
  "inParse sampleEnv tableInTransclusion \<and>
   tableDepth tableInTransclusion = 1 \<and> unmatched tableInTransclusion = [2] \<and>
   tableDepth (stateOf (processToken sampleEnv tableInTransclusion (EndTagTk ''table'' [] None))) = 0 \<and>
   inParse sampleEnv fresh \<and>
   tableDepth (stateOf (processToken sampleEnv fresh (EndTagTk ''table'' [] None))) = 0"
proof -
  have u: "unmatched tableInTransclusion = [2]"
    by (simp add: unmatched_def tableInTransclusion_value)
  have f: "tableDepth fresh = 0" by (simp add: fresh_value)
  show ?thesis
    using tableDepth_counts_unmatched [OF inParse_tableInTransclusion, of "[]" None]
      tableDepth_counts_unmatched [OF inParse_fresh, of "[]" None]
      inParse_tableInTransclusion inParse_fresh u f
    by simp
qed


section \<open>Open and close tags\<close>

lemma prepare_attribs:
  "fst (prepare s t) =
     (case tokenAttribs t of None \<Rightarrow> [] | Some a \<Rightarrow> a) @ [(''data-parsoid'', JSON_stringify (metadata s t))]"
  by (simp add: prepare_def metadata_def Let_def)

lemma tagIdText_assignedId:
  "tagIdText d = (case assignedId d of None \<Rightarrow> ''undefined'' | Some i \<Rightarrow> showInt i)"
  by (simp add: tagIdText_def assignedId_def split: option.splits)

lemma metadata_autoInsertedEnd:
  "autoInsertedEnd (metadata s t) =
     (case tokenDataAttribs t of None \<Rightarrow> False | Some d \<Rightarrow> autoInsertedEnd d)"
  by (simp add: metadata_def prepare_def Let_def upd_tmp_def set_tmp_def emptyDataAttribs_def
      split: option.splits)

lemma emitted_TagTk:
  "emitted (stateOf (processToken env s (TagTk n a d))) =
     emitted s @ (if n = ''table'' \<and> \<not> inTransclusion s then [fosterBox] else []) @
       [StartTag n False (att env (a @ [(''data-parsoid'', JSON_stringify (metadata s (TagTk n a d)))])),
        startShadow n (metadata s (TagTk n a d))]"
  by (simp add: processToken_TagTk epilogue_frame caseTagTk_def Let_def emit_def prepare_frame
      prepare_attribs metadata_def [symmetric])

lemma emitted_EndTagTk:
  "emitted (stateOf (processToken env s (EndTagTk n a d))) =
     emitted s @ EndTag n None #
       (if autoInsertedEnd (metadata s (EndTagTk n a d)) then []
        else [endShadow env n (a @ [(''data-parsoid'', JSON_stringify (metadata s (EndTagTk n a d)))])
                (metadata s (EndTagTk n a d))])"
  by (simp add: processToken_EndTagTk epilogue_frame caseEndTagTk_def Let_def emit_def prepare_frame
      prepare_attribs metadata_def [symmetric])

lemma Done_stateOf: "\<not> threw r \<Longrightarrow> r = Done (stateOf r)"
  by (cases r) simp_all

lemma flat_returns: "\<not> isSelfclosingTagTk t \<Longrightarrow> \<not> threw (processToken env s t)"
  by (cases t) (simp_all add: flat_equations)

lemma flat_Done: "\<not> isSelfclosingTagTk t \<Longrightarrow> processToken env s t = Done (stateOf (processToken env s t))"
  by (rule Done_stateOf) (rule flat_returns)


text \<open>
  Claim C6. An open \<^verbatim>\<open>table\<close> outside a transclusion adds exactly one foster box (the
  self-closing \<^verbatim>\<open>table\<close> of type \<^verbatim>\<open>mw:FosterBox\<close>), right before the open-element
  command of the table; inside a transclusion it adds none.
\<close>

theorem foster_box_per_table:
  "\<exists>s'. processToken env s (TagTk ''table'' a d) = Done s' \<and>
     emitted s' = emitted s @
       (if inTransclusion s then []
        else [StartTag ''table'' True [\<lparr>nodeName = ''typeof'', nodeValue = Str ''mw:FosterBox'', namespaceURI = None\<rparr>]]) @
       [StartTag ''table'' False
          (att env (a @ [(''data-parsoid'', JSON_stringify (metadata s (TagTk ''table'' a d)))])),
        Comment (JSON_object ''mw:shadow''
          [plainAttr ''typeof'' (Str ''mw:StartTag''),
           plainAttr ''data-stag'' (Str (''table:'' @ showInt (tagId s))),
           plainAttr ''data-parsoid'' (JSON_stringify (metadata s (TagTk ''table'' a d)))])] \<and>
     count_list (drop (length (emitted s)) (emitted s'))
         (StartTag ''table'' True [\<lparr>nodeName = ''typeof'', nodeValue = Str ''mw:FosterBox'', namespaceURI = None\<rparr>]) =
       (if inTransclusion s then 0 else 1)"
proof -
  have "processToken env s (TagTk ''table'' a d) = Done (stateOf (processToken env s (TagTk ''table'' a d)))"
    by (rule flat_Done) simp
  moreover have "assignedId (metadata s (TagTk ''table'' a d)) = Some (tagId s)"
    by (simp add: metadata_def prepare_assignedId isTag_def)
  ultimately show ?thesis
    using emitted_TagTk [of env s "''table''" a d]
    by (intro exI [of _ "stateOf (processToken env s (TagTk ''table'' a d))"])
      (simp add: fosterBox_def startShadow_def tagIdText_assignedId plainAttr_def)
qed

lemma dataParsoid_StartTag:
  "dataParsoid (StartTag n sc (att env (a @ [(''data-parsoid'', v)]))) =
     map snd (filter (\<lambda>x. fst x = ''data-parsoid'') a) @ [v]"
  by (simp add: dataParsoid_def att_def filter_map comp_def)

text \<open>The metadata object lines 143 to 156 leave for a tag token: every entry of the
  token's own object (none when the token has no object), with the scratch map holding the
  transclusion flag and, for an open tag, the id just assigned.\<close>

lemma metadata_TagTk:
  "metadata s (TagTk n a d) =
        DataAttribs
          (Some \<lparr>tmpInTransclusion =
                   (inTransclusion s \<or>
                    (case d of None \<Rightarrow> False
                     | Some x \<Rightarrow> (case tmp x of None \<Rightarrow> False | Some t \<Rightarrow> tmpInTransclusion t))),
                 tmpTagId = Some (tagId s)\<rparr>)
          (case d of None \<Rightarrow> None | Some x \<Rightarrow> tsr x)
          (case d of None \<Rightarrow> None | Some x \<Rightarrow> endpos x)
          (case d of None \<Rightarrow> None | Some x \<Rightarrow> stx x)
          (case d of None \<Rightarrow> False | Some x \<Rightarrow> autoInsertedEnd x)
          (case d of None \<Rightarrow> None | Some x \<Rightarrow> tokens x)
          (case d of None \<Rightarrow> [] | Some x \<Rightarrow> rest x)"
proof (cases d)
  case None
  then show ?thesis
    by (simp add: metadata_def prepare_def Let_def upd_tmp_def set_tmp_def emptyDataAttribs_def
        emptyTmp_def)
next
  case (Some x)
  then show ?thesis
    by (cases x)
      (auto simp: metadata_def prepare_def Let_def upd_tmp_def set_tmp_def emptyTmp_def
        split: option.splits)
qed

lemma metadata_EndTagTk:
  "metadata s (EndTagTk n a d) =
        DataAttribs
          (Some \<lparr>tmpInTransclusion =
                   (inTransclusion s \<or>
                    (case d of None \<Rightarrow> False
                     | Some x \<Rightarrow> (case tmp x of None \<Rightarrow> False | Some t \<Rightarrow> tmpInTransclusion t))),
                 tmpTagId = (case d of None \<Rightarrow> None | Some x \<Rightarrow> (case tmp x of None \<Rightarrow> None | Some t \<Rightarrow> tmpTagId t))\<rparr>)
          (case d of None \<Rightarrow> None | Some x \<Rightarrow> tsr x)
          (case d of None \<Rightarrow> None | Some x \<Rightarrow> endpos x)
          (case d of None \<Rightarrow> None | Some x \<Rightarrow> stx x)
          (case d of None \<Rightarrow> False | Some x \<Rightarrow> autoInsertedEnd x)
          (case d of None \<Rightarrow> None | Some x \<Rightarrow> tokens x)
          (case d of None \<Rightarrow> [] | Some x \<Rightarrow> rest x)"
proof (cases d)
  case None
  then show ?thesis
    by (simp add: metadata_def prepare_def Let_def upd_tmp_def set_tmp_def emptyDataAttribs_def
        emptyTmp_def)
next
  case (Some x)
  then show ?thesis
    by (cases x)
      (auto simp: metadata_def prepare_def Let_def upd_tmp_def set_tmp_def emptyTmp_def
        split: option.splits)
qed

lemma last_att:
  "nodeName (last (att env (a @ [(k, v)]))) = k"
  "nodeValue (last (att env (a @ [(k, v)]))) = v"
  by (simp_all add: att_def)

text \<open>
  Claim C9, as amended. The open-element command of every open tag has \<^verbatim>\<open>data-parsoid\<close>
  as the last entry of its attribute list, whatever else is emitted, and its value is the
  serialisation of the token's full metadata object: every entry the token came with
  (\<^verbatim>\<open>tsr\<close>, \<^verbatim>\<open>endpos\<close>, \<^verbatim>\<open>stx\<close>, \<^verbatim>\<open>autoInsertedEnd\<close>, \<^verbatim>\<open>tokens\<close> and the rest), plus the
  scratch map with the transclusion flag and the assigned id. The close-element command
  of a close tag has no attribute list: the \<^verbatim>\<open>data-parsoid\<close> of a close tag, again the
  token's full metadata object, is found in its shadow comment, and nowhere when the
  token is flagged \<^verbatim>\<open>autoInsertedEnd\<close>.
\<close>

theorem data_parsoid_carried:
  "(\<exists>s' before bag opening.
      bag =
        DataAttribs
          (Some \<lparr>tmpInTransclusion =
                   (inTransclusion s \<or>
                    (case d of None \<Rightarrow> False
                     | Some x \<Rightarrow> (case tmp x of None \<Rightarrow> False | Some t \<Rightarrow> tmpInTransclusion t))),
                 tmpTagId = Some (tagId s)\<rparr>)
          (case d of None \<Rightarrow> None | Some x \<Rightarrow> tsr x)
          (case d of None \<Rightarrow> None | Some x \<Rightarrow> endpos x)
          (case d of None \<Rightarrow> None | Some x \<Rightarrow> stx x)
          (case d of None \<Rightarrow> False | Some x \<Rightarrow> autoInsertedEnd x)
          (case d of None \<Rightarrow> None | Some x \<Rightarrow> tokens x)
          (case d of None \<Rightarrow> [] | Some x \<Rightarrow> rest x) \<and>
      processToken env s (TagTk n a d) = Done s' \<and>
      opening = StartTag n False (att env (a @ [(''data-parsoid'', JSON_stringify bag)])) \<and>
      emitted s' = emitted s @ before @
        [opening,
         Comment (JSON_object ''mw:shadow''
           [\<lparr>nodeName = ''typeof'', nodeValue = Str ''mw:StartTag'', namespaceURI = None\<rparr>,
            \<lparr>nodeName = ''data-stag'', nodeValue = Str (n @ '':'' @ showInt (tagId s)), namespaceURI = None\<rparr>,
            \<lparr>nodeName = ''data-parsoid'', nodeValue = JSON_stringify bag, namespaceURI = None\<rparr>])] \<and>
      nodeName (last (elementAttrs opening)) = ''data-parsoid'' \<and>
      nodeValue (last (elementAttrs opening)) = JSON_stringify bag \<and>
      last (dataParsoid opening) = JSON_stringify bag) \<and>
   (\<exists>s' bag.
      bag =
        DataAttribs
          (Some \<lparr>tmpInTransclusion =
                   (inTransclusion s \<or>
                    (case d of None \<Rightarrow> False
                     | Some x \<Rightarrow> (case tmp x of None \<Rightarrow> False | Some t \<Rightarrow> tmpInTransclusion t))),
                 tmpTagId = (case d of None \<Rightarrow> None | Some x \<Rightarrow> (case tmp x of None \<Rightarrow> None | Some t \<Rightarrow> tmpTagId t))\<rparr>)
          (case d of None \<Rightarrow> None | Some x \<Rightarrow> tsr x)
          (case d of None \<Rightarrow> None | Some x \<Rightarrow> endpos x)
          (case d of None \<Rightarrow> None | Some x \<Rightarrow> stx x)
          (case d of None \<Rightarrow> False | Some x \<Rightarrow> autoInsertedEnd x)
          (case d of None \<Rightarrow> None | Some x \<Rightarrow> tokens x)
          (case d of None \<Rightarrow> [] | Some x \<Rightarrow> rest x) \<and>
      processToken env s (EndTagTk n a d) = Done s' \<and>
      elementAttrs (EndTag n None) = [] \<and>
      emitted s' = emitted s @ EndTag n None #
        (if (case d of None \<Rightarrow> False | Some x \<Rightarrow> autoInsertedEnd x) then []
         else [Comment (JSON_object ''mw:shadow''
                 (att env (a @ [(''data-parsoid'', JSON_stringify bag)]) @
                  [\<lparr>nodeName = ''typeof'', nodeValue = Str ''mw:EndTag'', namespaceURI = None\<rparr>,
                   \<lparr>nodeName = ''data-etag'', nodeValue = Str n, namespaceURI = None\<rparr>,
                   \<lparr>nodeName = ''data-parsoid'', nodeValue = JSON_stringify bag, namespaceURI = None\<rparr>]))]))"
proof (intro conjI)
  have "processToken env s (TagTk n a d) = Done (stateOf (processToken env s (TagTk n a d)))"
    by (rule flat_Done) simp
  moreover have "assignedId (metadata s (TagTk n a d)) = Some (tagId s)"
    by (simp add: metadata_def prepare_assignedId isTag_def)
  ultimately have
    "\<exists>s' before opening.
      processToken env s (TagTk n a d) = Done s' \<and>
      opening = StartTag n False (att env (a @ [(''data-parsoid'', JSON_stringify (metadata s (TagTk n a d)))])) \<and>
      emitted s' = emitted s @ before @
        [opening,
         Comment (JSON_object ''mw:shadow''
           [\<lparr>nodeName = ''typeof'', nodeValue = Str ''mw:StartTag'', namespaceURI = None\<rparr>,
            \<lparr>nodeName = ''data-stag'', nodeValue = Str (n @ '':'' @ showInt (tagId s)), namespaceURI = None\<rparr>,
            \<lparr>nodeName = ''data-parsoid'', nodeValue = JSON_stringify (metadata s (TagTk n a d)), namespaceURI = None\<rparr>])] \<and>
      nodeName (last (elementAttrs opening)) = ''data-parsoid'' \<and>
      nodeValue (last (elementAttrs opening)) = JSON_stringify (metadata s (TagTk n a d)) \<and>
      last (dataParsoid opening) = JSON_stringify (metadata s (TagTk n a d))"
    using emitted_TagTk [of env s n a d]
    by (intro exI [of _ "stateOf (processToken env s (TagTk n a d))"]
          exI [of _ "if n = ''table'' \<and> \<not> inTransclusion s then [fosterBox] else []"]
          exI [of _ "StartTag n False (att env (a @ [(''data-parsoid'', JSON_stringify (metadata s (TagTk n a d)))]))"])
      (simp add: dataParsoid_StartTag last_att startShadow_def tagIdText_assignedId plainAttr_def)
  then show "\<exists>s' before bag opening.
      bag =
        DataAttribs
          (Some \<lparr>tmpInTransclusion =
                   (inTransclusion s \<or>
                    (case d of None \<Rightarrow> False
                     | Some x \<Rightarrow> (case tmp x of None \<Rightarrow> False | Some t \<Rightarrow> tmpInTransclusion t))),
                 tmpTagId = Some (tagId s)\<rparr>)
          (case d of None \<Rightarrow> None | Some x \<Rightarrow> tsr x)
          (case d of None \<Rightarrow> None | Some x \<Rightarrow> endpos x)
          (case d of None \<Rightarrow> None | Some x \<Rightarrow> stx x)
          (case d of None \<Rightarrow> False | Some x \<Rightarrow> autoInsertedEnd x)
          (case d of None \<Rightarrow> None | Some x \<Rightarrow> tokens x)
          (case d of None \<Rightarrow> [] | Some x \<Rightarrow> rest x) \<and>
      processToken env s (TagTk n a d) = Done s' \<and>
      opening = StartTag n False (att env (a @ [(''data-parsoid'', JSON_stringify bag)])) \<and>
      emitted s' = emitted s @ before @
        [opening,
         Comment (JSON_object ''mw:shadow''
           [\<lparr>nodeName = ''typeof'', nodeValue = Str ''mw:StartTag'', namespaceURI = None\<rparr>,
            \<lparr>nodeName = ''data-stag'', nodeValue = Str (n @ '':'' @ showInt (tagId s)), namespaceURI = None\<rparr>,
            \<lparr>nodeName = ''data-parsoid'', nodeValue = JSON_stringify bag, namespaceURI = None\<rparr>])] \<and>
      nodeName (last (elementAttrs opening)) = ''data-parsoid'' \<and>
      nodeValue (last (elementAttrs opening)) = JSON_stringify bag \<and>
      last (dataParsoid opening) = JSON_stringify bag"
    unfolding metadata_TagTk by blast
next
  have "processToken env s (EndTagTk n a d) = Done (stateOf (processToken env s (EndTagTk n a d)))"
    by (rule flat_Done) simp
  then have
    "\<exists>s'. processToken env s (EndTagTk n a d) = Done s' \<and>
      elementAttrs (EndTag n None) = [] \<and>
      emitted s' = emitted s @ EndTag n None #
        (if (case d of None \<Rightarrow> False | Some x \<Rightarrow> autoInsertedEnd x) then []
         else [Comment (JSON_object ''mw:shadow''
                 (att env (a @ [(''data-parsoid'', JSON_stringify (metadata s (EndTagTk n a d)))]) @
                  [\<lparr>nodeName = ''typeof'', nodeValue = Str ''mw:EndTag'', namespaceURI = None\<rparr>,
                   \<lparr>nodeName = ''data-etag'', nodeValue = Str n, namespaceURI = None\<rparr>,
                   \<lparr>nodeName = ''data-parsoid'', nodeValue = JSON_stringify (metadata s (EndTagTk n a d)), namespaceURI = None\<rparr>]))])"
    using emitted_EndTagTk [of env s n a d]
    by (intro exI [of _ "stateOf (processToken env s (EndTagTk n a d))"])
      (simp add: metadata_autoInsertedEnd endShadow_def plainAttr_def)
  then show "\<exists>s' bag.
      bag =
        DataAttribs
          (Some \<lparr>tmpInTransclusion =
                   (inTransclusion s \<or>
                    (case d of None \<Rightarrow> False
                     | Some x \<Rightarrow> (case tmp x of None \<Rightarrow> False | Some t \<Rightarrow> tmpInTransclusion t))),
                 tmpTagId = (case d of None \<Rightarrow> None | Some x \<Rightarrow> (case tmp x of None \<Rightarrow> None | Some t \<Rightarrow> tmpTagId t))\<rparr>)
          (case d of None \<Rightarrow> None | Some x \<Rightarrow> tsr x)
          (case d of None \<Rightarrow> None | Some x \<Rightarrow> endpos x)
          (case d of None \<Rightarrow> None | Some x \<Rightarrow> stx x)
          (case d of None \<Rightarrow> False | Some x \<Rightarrow> autoInsertedEnd x)
          (case d of None \<Rightarrow> None | Some x \<Rightarrow> tokens x)
          (case d of None \<Rightarrow> [] | Some x \<Rightarrow> rest x) \<and>
      processToken env s (EndTagTk n a d) = Done s' \<and>
      elementAttrs (EndTag n None) = [] \<and>
      emitted s' = emitted s @ EndTag n None #
        (if (case d of None \<Rightarrow> False | Some x \<Rightarrow> autoInsertedEnd x) then []
         else [Comment (JSON_object ''mw:shadow''
                 (att env (a @ [(''data-parsoid'', JSON_stringify bag)]) @
                  [\<lparr>nodeName = ''typeof'', nodeValue = Str ''mw:EndTag'', namespaceURI = None\<rparr>,
                   \<lparr>nodeName = ''data-etag'', nodeValue = Str n, namespaceURI = None\<rparr>,
                   \<lparr>nodeName = ''data-parsoid'', nodeValue = JSON_stringify bag, namespaceURI = None\<rparr>]))])"
    unfolding metadata_EndTagTk by blast
qed

lemma onChunk_single: "stateOf (onChunk env s [t]) = stateOf (processToken env s t)"
  by (cases "processToken env s t") simp_all

text \<open>The claim as it is written fails for close tags: the close-element command carries
  no attribute, and an auto-inserted close adds nothing else.\<close>

theorem data_parsoid_counterexample:
  "issued sampleEnv fresh [EndTagTk ''p'' [] (Some (DataAttribs None None None None True None []))] =
     [EndTag ''p'' None] \<and>
   hd (issued sampleEnv fresh [EndTagTk ''p'' [] None]) = EndTag ''p'' None \<and>
   dataParsoid (EndTag ''p'' None) = []"
  by (simp add: issued_def onChunk_single emitted_EndTagTk metadata_autoInsertedEnd dataParsoid_def
      del: onChunk.simps)


section \<open>Newlines after an open pre\<close>

lemma epilogue_preceededByPre:
  "preceededByPre (epilogue env t s) =
     (case t of
        TagTk n a d \<Rightarrow> n = ''pre'' \<or> (n = ''span'' \<and> getAttribute env t ''typeof'' = Some ''mw:Nowiki'' \<and> preceededByPre s)
      | _ \<Rightarrow> False)"
  by (auto simp: epilogue_def Let_def split: token.splits)

lemma after_Done: "after env t r = Done s' \<Longrightarrow> \<exists>s2. r = Done s2 \<and> s' = epilogue env t s2"
  by (cases r) (simp_all add: after_def)

lemma Done_epilogue:
  assumes "processToken env s t = Done s'"
  shows "\<exists>s2. s' = epilogue env t s2 \<and> (isTagTk t \<longrightarrow> preceededByPre s2 = preceededByPre s)"
proof (cases t)
  case (SelfclosingTagTk n a d)
  with assms show ?thesis
    by (auto simp: processToken_SelfclosingTagTk_proj split: if_splits option.splits dest!: after_Done)
next
  case (TagTk n a d)
  have "preceededByPre (caseTagTk env n x y (snd (snd (prepare s t)))) = preceededByPre s" for x y
    by (simp add: caseTagTk_def Let_def emit_def prepare_frame)
  with assms TagTk show ?thesis
    by (auto simp: processToken_TagTk)
qed (use assms in \<open>auto simp: flat_equations\<close>)

lemma emitted_text:
  "isText t \<Longrightarrow>
   emitted (stateOf (processToken env s t)) =
     emitted s @ Characters (charData (preceededByPre s) t) #
       (if inTransclusion s \<and> 0 < tableDepth s \<and> isString t \<and> \<not> haveTransclusionShadow s
        then [transclusionShadow] else [])"
  by (cases t) (simp_all add: isText_def flat_equations epilogue_frame caseStringNl_def Let_def
      emit_def prepare_frame)

text \<open>
  Claim C7. After a token has been processed, \<^verbatim>\<open>preceededByPre\<close> (the field the adapter
  reads and writes in \<^verbatim>\<open>processToken\<close>) is true exactly when the token was an open
  \<^verbatim>\<open>pre\<close>, except that an open \<^verbatim>\<open>span\<close> whose \<^verbatim>\<open>typeof\<close> is \<^verbatim>\<open>mw:Nowiki\<close> leaves the
  field as it was. When the field is true and a string or newline token whose text begins
  with a newline is processed, the text command carries that text with one more newline
  in front.
\<close>

theorem preceded_by_pre:
  "(processToken env s t = Done s' \<longrightarrow>
      preceededByPre s' =
        (case t of
           TagTk n a d \<Rightarrow>
             n = ''pre'' \<or>
             (n = ''span'' \<and> getAttribute env t ''typeof'' = Some ''mw:Nowiki'' \<and> preceededByPre s)
         | _ \<Rightarrow> False)) \<and>
   (isText t \<and> preceededByPre s \<and> startsWithNl (tokenText t) \<longrightarrow>
      (\<exists>s''. processToken env s t = Done s'' \<and>
         emitted s'' = emitted s @ Characters (CHR 0x0A # tokenText t) #
           (if inTransclusion s \<and> 0 < tableDepth s \<and> isString t \<and> \<not> haveTransclusionShadow s
            then [transclusionShadow] else [])))"
proof (intro conjI impI)
  assume d: "processToken env s t = Done s'"
  from Done_epilogue [OF d] obtain s2 where
    s2: "s' = epilogue env t s2" "isTagTk t \<longrightarrow> preceededByPre s2 = preceededByPre s" by blast
  show "preceededByPre s' =
        (case t of
           TagTk n a d \<Rightarrow>
             n = ''pre'' \<or>
             (n = ''span'' \<and> getAttribute env t ''typeof'' = Some ''mw:Nowiki'' \<and> preceededByPre s)
         | _ \<Rightarrow> False)"
    using s2 by (cases t) (simp_all add: epilogue_preceededByPre)
next
  assume h: "isText t \<and> preceededByPre s \<and> startsWithNl (tokenText t)"
  then have "\<not> isSelfclosingTagTk t" by (cases t) (simp_all add: isText_def)
  then have "processToken env s t = Done (stateOf (processToken env s t))" by (rule flat_Done)
  then show "\<exists>s''. processToken env s t = Done s'' \<and>
         emitted s'' = emitted s @ Characters (CHR 0x0A # tokenText t) #
           (if inTransclusion s \<and> 0 < tableDepth s \<and> isString t \<and> \<not> haveTransclusionShadow s
            then [transclusionShadow] else [])"
    using h emitted_text [of t env s]
    by (intro exI [of _ "stateOf (processToken env s t)"]) (simp add: charData_def)
qed

lemma afterPre_value:
  "processToken sampleEnv fresh (TagTk ''pre'' [] None) = Done afterPre"
  "inTransclusion afterPre = False"
  unfolding afterPre_def
  by (rule flat_Done, simp) (simp add: processToken_TagTk epilogue_frame caseTagTk_def Let_def emit_def
      prepare_frame fresh_value)

theorem preceded_by_pre_witness:
  "processToken sampleEnv fresh (TagTk ''pre'' [] None) = Done afterPre \<and>
   isText (StringTk [CHR 0x0A, CHR ''x'']) \<and> preceededByPre afterPre \<and>
   startsWithNl (tokenText (StringTk [CHR 0x0A, CHR ''x''])) \<and>
   emitted (stateOf (processToken sampleEnv afterPre (StringTk [CHR 0x0A, CHR ''x'']))) =
     emitted afterPre @ [Characters [CHR 0x0A, CHR 0x0A, CHR ''x'']]"
proof -
  have p: "preceededByPre afterPre"
    using preceded_by_pre [of sampleEnv fresh "TagTk ''pre'' [] None" afterPre] afterPre_value
    by simp
  have t: "isText (StringTk [CHR 0x0A, CHR ''x''])" "startsWithNl (tokenText (StringTk [CHR 0x0A, CHR ''x'']))"
    by (simp_all add: isText_def startsWithNl_def)
  from preceded_by_pre [of sampleEnv afterPre "StringTk [CHR 0x0A, CHR ''x'']"] p t afterPre_value
  obtain s'' where "processToken sampleEnv afterPre (StringTk [CHR 0x0A, CHR ''x'']) = Done s''"
    "emitted s'' = emitted afterPre @ [Characters [CHR 0x0A, CHR 0x0A, CHR ''x'']]"
    by auto
  then show ?thesis using p t afterPre_value by simp
qed


section \<open>A packed pre without content\<close>

lemma lastContent_absent:
  "list_all (\<lambda>attr. fst attr \<noteq> ''content'') a \<Longrightarrow> lastContent (a @ [(''data-parsoid'', v)]) = None"
  by (simp add: lastContent_def list_all_iff filter_empty_conv)

lemma unpackPre_absent:
  "list_all (\<lambda>attr. fst attr \<noteq> ''content'') a \<Longrightarrow> unpackPre (a @ [(''data-parsoid'', v)]) d = None"
  by (simp add: unpackPre_def Let_def lastContent_absent)

lemma processToken_pre_throws:
  assumes "\<not> isEmptyLineMetaToken env (SelfclosingTagTk ''pre'' a d)"
    and "getAttribute env (SelfclosingTagTk ''pre'' a d) ''property'' = Some ''mw:html''"
    and "list_all (\<lambda>attr. fst attr \<noteq> ''content'') a"
  shows "processToken env s (SelfclosingTagTk ''pre'' a d) =
           Threw TypeError (snd (snd (prepare s (SelfclosingTagTk ''pre'' a d))))"
proof -
  let ?t = "SelfclosingTagTk ''pre'' a d"
  have "unpackPre (fst (prepare s ?t)) (fst (snd (prepare s ?t))) = None"
    using assms(3) by (simp add: prepare_attribs unpackPre_absent)
  then show ?thesis
    using assms(1,2) by (simp add: processToken_SelfclosingTagTk_proj)
qed

text \<open>
  Claim C8, as amended. A self-closing \<^verbatim>\<open>pre\<close> that is not an empty-line token, has
  \<^verbatim>\<open>property="mw:html"\<close> and has no \<^verbatim>\<open>content\<close> attribute makes \<^verbatim>\<open>processToken\<close> throw a
  \<^verbatim>\<open>TypeError\<close>: the unpacking is entered, no command is issued for the token, the token
  has taken a tag id, and the exception leaves \<^verbatim>\<open>onChunk\<close> too, so the tokens behind it
  in the chunk are not processed.
\<close>

theorem packed_pre_without_content_throws:
  assumes "\<not> isEmptyLineMetaToken env (SelfclosingTagTk ''pre'' a d)"
    and "getAttribute env (SelfclosingTagTk ''pre'' a d) ''property'' = Some ''mw:html''"
    and "list_all (\<lambda>attr. fst attr \<noteq> ''content'') a"
  shows "\<exists>s1. processToken env s (SelfclosingTagTk ''pre'' a d) = Threw TypeError s1 \<and>
           emitted s1 = emitted s \<and> tagId s1 = tagId s + 1 \<and>
           onChunk env s (SelfclosingTagTk ''pre'' a d # ts) = Threw TypeError s1"
  using processToken_pre_throws [OF assms, of s]
  by (simp add: prepare_frame prepare_trace isTag_def)

lemma preWithoutContent_facts:
  "\<not> isEmptyLineMetaToken sampleEnv (SelfclosingTagTk ''pre'' [(''property'', Str ''mw:html'')] None)"
  "getAttribute sampleEnv (SelfclosingTagTk ''pre'' [(''property'', Str ''mw:html'')] None) ''property'' = Some ''mw:html''"
  "list_all (\<lambda>attr. fst attr \<noteq> ''content'') [(''property'', Str ''mw:html'')]"
  by (simp_all add: sampleEnv_fields)

theorem packed_pre_without_content_throws_witness:
  "\<not> isEmptyLineMetaToken sampleEnv preWithoutContent \<and>
   getAttribute sampleEnv preWithoutContent ''property'' = Some ''mw:html'' \<and>
   threw (onChunk sampleEnv fresh [preWithoutContent, StringTk ''x'']) \<and>
   emitted (stateOf (onChunk sampleEnv fresh [preWithoutContent, StringTk ''x''])) = emitted fresh \<and>
   tagId (stateOf (onChunk sampleEnv fresh [preWithoutContent, StringTk ''x''])) = 3"
proof -
  from packed_pre_without_content_throws [OF preWithoutContent_facts, of fresh "[StringTk ''x'']"]
  obtain s1 where "onChunk sampleEnv fresh [preWithoutContent, StringTk ''x''] = Threw TypeError s1"
    "emitted s1 = emitted fresh" "tagId s1 = tagId fresh + 1"
    unfolding preWithoutContent_def by blast
  then show ?thesis
    using preWithoutContent_facts by (simp add: preWithoutContent_def fresh_value)
qed

text \<open>The claim as it is written fails: there is no fallback to the generic handling,
  and the string behind the token is never processed.\<close>

theorem packed_pre_counterexample:
  "threw (processToken sampleEnv fresh preWithoutContent) \<and>
   threw (onChunk sampleEnv fresh [preWithoutContent, StringTk ''x'']) \<and>
   issued sampleEnv fresh [preWithoutContent, StringTk ''x''] = []"
  using processToken_pre_throws [OF preWithoutContent_facts, of fresh]
  by (simp add: preWithoutContent_def issued_def prepare_frame)


section \<open>Transclusion shadows\<close>

lemma epilogue_haveTransclusionShadow:
  "haveTransclusionShadow (epilogue env t s) = (isText t \<and> haveTransclusionShadow s)"
  by (cases t) (simp_all add: epilogue_def Let_def isText_def)

lemma text_step:
  assumes "isText t"
  shows "inTransclusion (stateOf (processToken env s t)) = inTransclusion s"
    and "tableDepth (stateOf (processToken env s t)) = tableDepth s"
    and "preceededByPre (stateOf (processToken env s t)) = False"
    and "haveTransclusionShadow (stateOf (processToken env s t)) =
           (haveTransclusionShadow s \<or> (inTransclusion s \<and> 0 < tableDepth s \<and> isString t))"
  using assms
  by (cases t; auto simp: isText_def flat_equations epilogue_frame epilogue_preceededByPre
      epilogue_haveTransclusionShadow caseStringNl_def Let_def emit_def prepare_frame)+

lemma text_not_selfclosing: "isText t \<Longrightarrow> \<not> isSelfclosingTagTk t"
  by (cases t) (simp_all add: isText_def)

lemma onChunk_Cons_returns:
  "\<not> threw (processToken env s t) \<Longrightarrow>
   onChunk env s (t # ts) = onChunk env (stateOf (processToken env s t)) ts"
  by (cases "processToken env s t") simp_all

lemma run_commands:
  assumes "inTransclusion s" "0 < tableDepth s" "list_all isText run"
  shows "\<exists>s'. onChunk env s run = Done s' \<and>
           emitted s' = emitted s @ runCommands (preceededByPre s) (haveTransclusionShadow s) run"
  using assms
proof (induction run arbitrary: s)
  case Nil
  then show ?case by simp
next
  case (Cons t ts)
  let ?s1 = "stateOf (processToken env s t)"
  from Cons.prems have t: "isText t" and ts: "list_all isText ts" by simp_all
  have d: "\<not> threw (processToken env s t)"
    by (rule flat_returns) (rule text_not_selfclosing [OF t])
  have "inTransclusion ?s1" "0 < tableDepth ?s1"
    using Cons.prems by (simp_all add: text_step [OF t])
  from Cons.IH [OF this ts] obtain s' where
    s': "onChunk env ?s1 ts = Done s'"
        "emitted s' = emitted ?s1 @ runCommands (preceededByPre ?s1) (haveTransclusionShadow ?s1) ts"
    by blast
  have "onChunk env s (t # ts) = Done s'"
    using s'(1) by (simp only: onChunk_Cons_returns [OF d])
  moreover have "emitted s' = emitted s @ runCommands (preceededByPre s) (haveTransclusionShadow s) (t # ts)"
    using s'(2) Cons.prems(1,2) by (auto simp: text_step [OF t] emitted_text [OF t])
  ultimately show ?case by blast
qed

lemma text_not_string: "isText t \<Longrightarrow> \<not> isString t \<Longrightarrow> t = NlTk"
  by (simp add: isText_def)

lemma length_textCommands [simp]: "length (textCommands pre run) = length run"
  by (induction run arbitrary: pre) simp_all

lemma runCommands_have: "runCommands pre True run = textCommands pre run"
  by (induction run arbitrary: pre) simp_all

lemma runCommands_first:
  "list_all isText run \<Longrightarrow>
   runCommands pre False run =
     (let k = length (takeWhile (\<lambda>t. t = NlTk) run); cs = textCommands pre run
      in if k < length run then take (Suc k) cs @ transclusionShadow # drop (Suc k) cs else cs)"
proof (induction run arbitrary: pre)
  case Nil
  then show ?case by simp
next
  case (Cons t ts)
  show ?case
  proof (cases "isString t")
    case True
    then have "t \<noteq> NlTk" by auto
    with True show ?thesis by (simp add: runCommands_have)
  next
    case False
    with Cons.prems have "t = NlTk" by (simp add: text_not_string)
    with Cons show ?thesis by (simp add: Let_def)
  qed
qed

lemma Characters_not_shadow [simp]: "Characters x \<noteq> transclusionShadow"
  by (simp add: transclusionShadow_def)

lemma count_textCommands [simp]: "count_list (textCommands pre run) transclusionShadow = 0"
  by (induction run arbitrary: pre) simp_all

lemma count_runCommands:
  "count_list (runCommands pre got run) transclusionShadow = (if list_ex isString run \<and> \<not> got then 1 else 0)"
  by (induction run arbitrary: pre got) (auto simp: runCommands_have)

lemma run_shadow:
  assumes "inTransclusion s" "0 < tableDepth s" "\<not> haveTransclusionShadow s" "list_all isText run"
  shows "\<exists>s'. onChunk env s run = Done s' \<and>
           emitted s' = emitted s @
             (let k = length (takeWhile (\<lambda>t. t = NlTk) run); cs = textCommands (preceededByPre s) run
              in if k < length run then take (Suc k) cs @ transclusionShadow # drop (Suc k) cs else cs) \<and>
           count_list (drop (length (emitted s)) (emitted s')) transclusionShadow =
             (if list_ex isString run then 1 else 0)"
proof -
  from run_commands [OF assms(1,2,4), of env] obtain s' where
    s': "onChunk env s run = Done s'" "emitted s' = emitted s @ runCommands (preceededByPre s) False run"
    using assms(3) by auto
  have "count_list (drop (length (emitted s)) (emitted s')) transclusionShadow =
      (if list_ex isString run then 1 else 0)"
    using s'(2) by (simp add: count_runCommands)
  with s' show ?thesis
    using runCommands_first [OF assms(4), of "preceededByPre s"] by simp
qed

text \<open>
  Claim C3, as amended. Take a run of string and newline tokens processed one after the
  other while \<^verbatim>\<open>inTransclusion\<close> is true and \<^verbatim>\<open>tableDepth\<close> is positive, starting with
  \<^verbatim>\<open>haveTransclusionShadow\<close> false. The whole run is processed. If it holds a string
  token, exactly one transclusion shadow (the \<^verbatim>\<open>meta\<close> of type \<^verbatim>\<open>mw:TransclusionShadow\<close>)
  is emitted for it, right after the text command of its first string token, the
  newline tokens before that one getting none; if it holds newline tokens only, no
  shadow is emitted.
\<close>

theorem transclusion_shadow_per_run:
  assumes "inTransclusion s" "0 < tableDepth s" "\<not> haveTransclusionShadow s" "list_all isText run"
  shows "\<exists>s'. onChunk env s run = Done s' \<and>
           emitted s' = emitted s @
             (let k = length (takeWhile (\<lambda>t. t = NlTk) run); cs = textCommands (preceededByPre s) run
              in if k < length run
                 then take (Suc k) cs @
                      StartTag ''meta'' False [\<lparr>nodeName = ''typeof'', nodeValue = Str ''mw:TransclusionShadow'', namespaceURI = None\<rparr>] #
                      drop (Suc k) cs
                 else cs) \<and>
           count_list (drop (length (emitted s)) (emitted s'))
               (StartTag ''meta'' False [\<lparr>nodeName = ''typeof'', nodeValue = Str ''mw:TransclusionShadow'', namespaceURI = None\<rparr>]) =
             (if list_ex isString run then 1 else 0)"
  by (rule run_shadow [OF assms, of env, unfolded transclusionShadow_def plainAttr_def])

text \<open>A run starts with \<^verbatim>\<open>haveTransclusionShadow\<close> false whenever the token processed
  before it was of another kind and was processed to its end.\<close>

lemma run_starts_unshadowed:
  "processToken env s0 p = Done s \<Longrightarrow> \<not> isText p \<Longrightarrow> \<not> haveTransclusionShadow s"
  by (drule Done_epilogue) (auto simp: epilogue_haveTransclusionShadow)

theorem transclusion_shadow_per_run_witness:
  "inTransclusion tableInTransclusion \<and> 0 < tableDepth tableInTransclusion \<and>
   \<not> haveTransclusionShadow tableInTransclusion \<and>
   list_all isText [NlTk, StringTk ''x'', StringTk ''y''] \<and>
   issued sampleEnv tableInTransclusion [NlTk, StringTk ''x'', StringTk ''y''] =
     [Characters [CHR 0x0A], Characters ''x'',
      StartTag ''meta'' False [\<lparr>nodeName = ''typeof'', nodeValue = Str ''mw:TransclusionShadow'', namespaceURI = None\<rparr>],
      Characters ''y''] \<and>
   count_list (issued sampleEnv tableInTransclusion [NlTk, StringTk ''x'', StringTk ''y''])
     (StartTag ''meta'' False [\<lparr>nodeName = ''typeof'', nodeValue = Str ''mw:TransclusionShadow'', namespaceURI = None\<rparr>]) = 1"
proof -
  have h: "inTransclusion tableInTransclusion" "0 < tableDepth tableInTransclusion"
    "\<not> haveTransclusionShadow tableInTransclusion" "list_all isText [NlTk, StringTk ''x'', StringTk ''y'']"
    by (simp_all add: tableInTransclusion_value isText_def)
  from transclusion_shadow_per_run [OF h, of sampleEnv] obtain s' where
    s': "onChunk sampleEnv tableInTransclusion [NlTk, StringTk ''x'', StringTk ''y''] = Done s'"
      "emitted s' = emitted tableInTransclusion @
         (let k = length (takeWhile (\<lambda>t. t = NlTk) [NlTk, StringTk ''x'', StringTk ''y'']);
              cs = textCommands (preceededByPre tableInTransclusion) [NlTk, StringTk ''x'', StringTk ''y'']
          in if k < length [NlTk, StringTk ''x'', StringTk ''y'']
             then take (Suc k) cs @
                  StartTag ''meta'' False [\<lparr>nodeName = ''typeof'', nodeValue = Str ''mw:TransclusionShadow'', namespaceURI = None\<rparr>] #
                  drop (Suc k) cs
             else cs)"
      "count_list (drop (length (emitted tableInTransclusion)) (emitted s'))
          (StartTag ''meta'' False [\<lparr>nodeName = ''typeof'', nodeValue = Str ''mw:TransclusionShadow'', namespaceURI = None\<rparr>]) =
         (if list_ex isString [NlTk, StringTk ''x'', StringTk ''y''] then 1 else 0)"
    by blast
  have "issued sampleEnv tableInTransclusion [NlTk, StringTk ''x'', StringTk ''y''] =
      [Characters [CHR 0x0A], Characters ''x'',
       StartTag ''meta'' False [\<lparr>nodeName = ''typeof'', nodeValue = Str ''mw:TransclusionShadow'', namespaceURI = None\<rparr>],
       Characters ''y'']"
    unfolding issued_def s'(1) using s'(2)
    by (simp add: tableInTransclusion_value charData_def startsWithNl_def)
  moreover have "count_list (issued sampleEnv tableInTransclusion [NlTk, StringTk ''x'', StringTk ''y''])
      (StartTag ''meta'' False [\<lparr>nodeName = ''typeof'', nodeValue = Str ''mw:TransclusionShadow'', namespaceURI = None\<rparr>]) = 1"
    unfolding issued_def s'(1) using s'(3) by simp
  ultimately show ?thesis using h by simp
qed

text \<open>The claim as it is written fails: a run of one newline token gets no shadow, and
  in a run that starts with a newline token the shadow follows the second token.\<close>

theorem transclusion_shadow_counterexample:
  "inTransclusion tableInTransclusion \<and> 0 < tableDepth tableInTransclusion \<and>
   \<not> haveTransclusionShadow tableInTransclusion \<and>
   issued sampleEnv tableInTransclusion [NlTk] = [Characters [CHR 0x0A]] \<and>
   count_list (issued sampleEnv tableInTransclusion [NlTk])
     (StartTag ''meta'' False [\<lparr>nodeName = ''typeof'', nodeValue = Str ''mw:TransclusionShadow'', namespaceURI = None\<rparr>]) = 0 \<and>
   issued sampleEnv tableInTransclusion [NlTk, StringTk ''x''] =
     [Characters [CHR 0x0A], Characters ''x'',
      StartTag ''meta'' False [\<lparr>nodeName = ''typeof'', nodeValue = Str ''mw:TransclusionShadow'', namespaceURI = None\<rparr>]]"
proof -
  have h: "inTransclusion tableInTransclusion" "0 < tableDepth tableInTransclusion"
    by (simp_all add: tableInTransclusion_value)
  have n: "\<not> haveTransclusionShadow tableInTransclusion" "\<not> preceededByPre tableInTransclusion"
    by (simp_all add: tableInTransclusion_value)
  from run_commands [OF h, of "[NlTk]" sampleEnv] n
  have a: "issued sampleEnv tableInTransclusion [NlTk] = [Characters [CHR 0x0A]]"
    by (auto simp: issued_def isText_def charData_def startsWithNl_def)
  from run_commands [OF h, of "[NlTk, StringTk ''x'']" sampleEnv] n
  have b: "issued sampleEnv tableInTransclusion [NlTk, StringTk ''x''] =
      [Characters [CHR 0x0A], Characters ''x'', transclusionShadow]"
    by (auto simp: issued_def isText_def charData_def startsWithNl_def)
  show ?thesis using h n a b by (simp add: transclusionShadow_def plainAttr_def)
qed

end
